theory Spec2Isabelle
  imports Main "HOL-Library.AList"
begin

section \<open>The watcher pool (src/utils/monitor-pool.js)\<close>

text \<open>
  The pool is the module-level object \<^verbatim>\<open>MONITOR_POOL\<close>. A JavaScript \<^verbatim>\<open>Map\<close> iterates in
  insertion order and \<^verbatim>\<open>set\<close> on an existing key keeps the key's position, which is what
  \<open>AList.update\<close> does on an association list; \<^verbatim>\<open>delete\<close> is \<open>AList.delete\<close> and
  \<^verbatim>\<open>size\<close> is the length of the list (the keys of a \<^verbatim>\<open>Map\<close> are distinct). A
  \<^verbatim>\<open>Set\<close> of ids is a duplicate-free list.

  \<^verbatim>\<open>Date.now()\<close> and \<^verbatim>\<open>Math.random()\<close> are inputs of the model: every reading the
  source takes is a parameter of the function that takes it. Timestamps are milliseconds
  (\<open>int\<close>). A watcher id is the string \<^verbatim>\<open>watcher_<timestamp>_<random>\<close>, kept as the pair it
  is built from. A watcher instance is modelled by the one thing the pool does with it:
  calling \<^verbatim>\<open>close()\<close>, which may throw.
\<close>

type_synonym path = string
type_synonym millis = int

datatype watcher_id = WatcherId millis nat

datatype handle = Handle (close_throws: bool)

datatype watch_type = FileWatch | DirectoryWatch

record watcher_info =
  w_id :: watcher_id
  w_path :: path
  w_instance :: handle
  w_type :: watch_type
  processId :: string
  createdAt :: millis
  lastUsedAt :: millis
  useCount :: nat

record monitor_pool =
  watchers :: "(watcher_id \<times> watcher_info) list"
  pathToId :: "(path \<times> watcher_id list) list"
  maxWatchers :: nat
  maxPerPath :: nat
  maxPerProcess :: nat
  created :: nat
  closed :: nat
  rejected :: nat
  activeCount :: nat
  processMap :: "(string \<times> nat) list"
  maxIdleTime :: millis

text \<open>The pool as the module creates it, with the limits of the configuration.\<close>

definition initial_pool :: "nat \<Rightarrow> nat \<Rightarrow> nat \<Rightarrow> millis \<Rightarrow> monitor_pool" where
  "initial_pool mw mpp mpr idle =
     \<lparr>watchers = [], pathToId = [], maxWatchers = mw, maxPerPath = mpp, maxPerProcess = mpr,
      created = 0, closed = 0, rejected = 0, activeCount = 0, processMap = [],
      maxIdleTime = idle\<rparr>"

text \<open>\<^verbatim>\<open>processMap.get(processId) || 0\<close>\<close>

definition processCountOf :: "monitor_pool \<Rightarrow> string \<Rightarrow> nat" where
  "processCountOf pool pid = (case map_of (processMap pool) pid of None \<Rightarrow> 0 | Some c \<Rightarrow> c)"

text \<open>The size of \<^verbatim>\<open>pathToId.get(targetPath)\<close>, or 0 when the path has no entry.\<close>

definition pathWatcherCountOf :: "monitor_pool \<Rightarrow> path \<Rightarrow> nat" where
  "pathWatcherCountOf pool p = (case map_of (pathToId pool) p of None \<Rightarrow> 0 | Some ids \<Rightarrow> length ids)"

definition generateWatcherId :: "millis \<Rightarrow> nat \<Rightarrow> watcher_id" where
  "generateWatcherId timestamp random = WatcherId timestamp random"

text \<open>
  \<^verbatim>\<open>removeWatcher(watcherId)\<close>: an unknown id reports \<open>False\<close>; \<^verbatim>\<open>close()\<close> is the first
  statement of the \<^verbatim>\<open>try\<close> block, so when it throws nothing has been changed and the
  \<^verbatim>\<open>catch\<close> reports \<open>False\<close>.
\<close>

definition removeWatcher :: "watcher_id \<Rightarrow> monitor_pool \<Rightarrow> bool \<times> monitor_pool" where
  "removeWatcher watcherId pool =
     (case map_of (watchers pool) watcherId of
        None \<Rightarrow> (False, pool)
      | Some watcherInfo \<Rightarrow>
          if close_throws (w_instance watcherInfo) then (False, pool)
          else
            let p2i = (case map_of (pathToId pool) (w_path watcherInfo) of
                         None \<Rightarrow> pathToId pool
                       | Some ids \<Rightarrow>
                           if removeAll watcherId ids = []
                           then AList.delete (w_path watcherInfo) (pathToId pool)
                           else AList.update (w_path watcherInfo) (removeAll watcherId ids)
                                  (pathToId pool));
                processCount = processCountOf pool (processId watcherInfo);
                pm = (if processCount > 1
                      then AList.update (processId watcherInfo) (processCount - 1) (processMap pool)
                      else AList.delete (processId watcherInfo) (processMap pool));
                ws = AList.delete watcherId (watchers pool)
            in (True, pool\<lparr>watchers := ws, pathToId := p2i, processMap := pm,
                            closed := closed pool + 1, activeCount := length ws\<rparr>))"

text \<open>
  The search loop of \<^verbatim>\<open>removeOldestWatcher\<close>: \<open>oldestTime\<close> starts at the clock reading and
  a record replaces the candidate only when its \<open>createdAt\<close> is strictly smaller.
\<close>

fun findOldest ::
  "(watcher_id \<times> watcher_info) list \<Rightarrow> millis \<Rightarrow> watcher_id option \<Rightarrow> millis \<times> watcher_id option"
where
  "findOldest [] oldestTime oldestId = (oldestTime, oldestId)"
| "findOldest ((watcherId, info) # rest) oldestTime oldestId =
     (if createdAt info < oldestTime then findOldest rest (createdAt info) (Some watcherId)
      else findOldest rest oldestTime oldestId)"

definition removeOldestWatcher :: "millis \<Rightarrow> monitor_pool \<Rightarrow> bool \<times> monitor_pool" where
  "removeOldestWatcher now pool =
     (if length (watchers pool) = 0 then (False, pool)
      else case snd (findOldest (watchers pool) now None) of
             Some oldestId \<Rightarrow> removeWatcher oldestId pool
           | None \<Rightarrow> (False, pool))"

text \<open>
  The readings one call of \<^verbatim>\<open>addWatcher\<close> takes, in the order the source takes them:
  the clock in \<^verbatim>\<open>removeOldestWatcher\<close>, the clock and the random number in
  \<^verbatim>\<open>generateWatcherId\<close>, the clock for \<open>createdAt\<close> and the clock for \<open>lastUsedAt\<close>.
\<close>

record add_env =
  evict_now :: millis
  id_now :: millis
  id_random :: nat
  created_now :: millis
  used_now :: millis

text \<open>A call whose readings all fall in the millisecond \<open>t\<close>.\<close>

definition at_ms :: "millis \<Rightarrow> nat \<Rightarrow> add_env" where
  "at_ms t r = \<lparr>evict_now = t, id_now = t, id_random = r, created_now = t, used_now = t\<rparr>"

text \<open>
  \<^verbatim>\<open>addWatcher(targetPath, watcher, options, type, processId)\<close>. \<^verbatim>\<open>path.normalize\<close> belongs
  to the runtime, not to the repository, and is the parameter \<open>normalizePath\<close>. The watcher
  argument is \<open>None\<close> for a falsy value. The opaque \<^verbatim>\<open>options\<close> object is stored and never
  read, and is left out. The result is the new record, or \<open>None\<close> for \<^verbatim>\<open>null\<close>.
\<close>

definition addWatcher ::
  "(path \<Rightarrow> path) \<Rightarrow> add_env \<Rightarrow> path \<Rightarrow> handle option \<Rightarrow> watch_type \<Rightarrow> string \<Rightarrow> monitor_pool
   \<Rightarrow> watcher_info option \<times> monitor_pool"
where
  "addWatcher normalizePath env targetPath0 watcher type pid pool0 =
     (case watcher of
        None \<Rightarrow> (None, pool0)
      | Some inst \<Rightarrow>
          if targetPath0 = [] then (None, pool0)
          else
            let targetPath = normalizePath targetPath0;
                pool = (if length (watchers pool0) \<ge> maxWatchers pool0
                        then snd (removeOldestWatcher (evict_now env)
                                    (pool0\<lparr>rejected := rejected pool0 + 1\<rparr>))
                        else pool0)
            in if pathWatcherCountOf pool targetPath \<ge> maxPerPath pool
               then (None, pool\<lparr>rejected := rejected pool + 1\<rparr>)
               else if processCountOf pool pid \<ge> maxPerProcess pool
               then (None, pool\<lparr>rejected := rejected pool + 1\<rparr>)
               else
                 let watcherId = generateWatcherId (id_now env) (id_random env);
                     watcherInfo = \<lparr>w_id = watcherId, w_path = targetPath, w_instance = inst,
                                    w_type = type, processId = pid,
                                    createdAt = created_now env, lastUsedAt = used_now env,
                                    useCount = 0\<rparr>;
                     ws = AList.update watcherId watcherInfo (watchers pool);
                     ids = (case map_of (pathToId pool) targetPath of None \<Rightarrow> [] | Some l \<Rightarrow> l);
                     p2i = AList.update targetPath
                             (if watcherId \<in> set ids then ids else ids @ [watcherId])
                             (pathToId pool);
                     pm = AList.update pid (processCountOf pool pid + 1) (processMap pool)
                 in (Some watcherInfo,
                     pool\<lparr>watchers := ws, pathToId := p2i, processMap := pm,
                          created := created pool + 1, activeCount := length ws\<rparr>))"

text \<open>\<^verbatim>\<open>useWatcher(watcherId)\<close>: refresh \<open>lastUsedAt\<close> and count the use.\<close>

definition useWatcher :: "millis \<Rightarrow> watcher_id \<Rightarrow> monitor_pool \<Rightarrow> monitor_pool" where
  "useWatcher now watcherId pool =
     (case map_of (watchers pool) watcherId of
        None \<Rightarrow> pool
      | Some info \<Rightarrow>
          pool\<lparr>watchers := AList.update watcherId
                              (info\<lparr>lastUsedAt := now, useCount := useCount info + 1\<rparr>)
                              (watchers pool)\<rparr>)"

text \<open>
  \<^verbatim>\<open>cleanupIdleWatchers()\<close>: the ids of the idle records are collected first, then each is
  removed; the result counts the removals that succeeded.
\<close>

fun removeEach :: "watcher_id list \<Rightarrow> monitor_pool \<Rightarrow> nat \<times> monitor_pool" where
  "removeEach [] pool = (0, pool)"
| "removeEach (watcherId # rest) pool =
     (let (removed, pool1) = removeWatcher watcherId pool;
          (n, pool2) = removeEach rest pool1
      in ((if removed then n + 1 else n), pool2))"

definition cleanupIdleWatchers :: "millis \<Rightarrow> monitor_pool \<Rightarrow> nat \<times> monitor_pool" where
  "cleanupIdleWatchers now pool =
     removeEach
       (map fst (filter (\<lambda>(watcherId, info). lastUsedAt info < now - maxIdleTime pool)
                        (watchers pool)))
       pool"

section \<open>Paths (the runtime's POSIX \<^verbatim>\<open>path\<close> module)\<close>

text \<open>
  \<^verbatim>\<open>path.dirname\<close>, \<^verbatim>\<open>path.relative\<close> and \<^verbatim>\<open>path.isAbsolute\<close> are functions of the
  runtime. They are modelled in their POSIX form, from their documented behaviour.
  \<open>dirname\<close> scans the path from its end down to index 1: trailing slashes are skipped,
  then the first slash after a non-slash character ends the directory part.
\<close>

fun dirname_scan :: "string \<Rightarrow> bool \<Rightarrow> nat option" where
  "dirname_scan [] matchedSlash = None"
| "dirname_scan (c # cs) matchedSlash =
     (if c = CHR ''/''
      then (if \<not> matchedSlash then Some (length cs + 1) else dirname_scan cs matchedSlash)
      else dirname_scan cs False)"

definition dirname :: "path \<Rightarrow> path" where
  "dirname p =
     (if p = [] then ''.''
      else case dirname_scan (rev (tl p)) True of
             None \<Rightarrow> (if hd p = CHR ''/'' then ''/'' else ''.'')
           | Some e \<Rightarrow> (if hd p = CHR ''/'' \<and> e = 1 then ''//'' else take e p))"

definition isAbsolute :: "path \<Rightarrow> bool" where
  "isAbsolute p = (p \<noteq> [] \<and> hd p = CHR ''/'')"

text \<open>\<^verbatim>\<open>s.startsWith(prefix)\<close>\<close>

definition startsWith :: "string \<Rightarrow> string \<Rightarrow> bool" where
  "startsWith s pre = (take (length pre) s = pre)"

text \<open>The segments of a path between slashes, and a path from its segments.\<close>

fun segments_acc :: "string \<Rightarrow> string \<Rightarrow> string list" where
  "segments_acc [] cur = [rev cur]"
| "segments_acc (c # cs) cur =
     (if c = CHR ''/'' then rev cur # segments_acc cs [] else segments_acc cs (c # cur))"

definition segments :: "path \<Rightarrow> string list" where
  "segments p = segments_acc p []"

fun join_segments :: "string list \<Rightarrow> string" where
  "join_segments [] = []"
| "join_segments [s] = s"
| "join_segments (s # t # rest) = s @ ''/'' @ join_segments (t # rest)"

text \<open>
  \<^verbatim>\<open>path.resolve\<close> of one path: a relative path is taken from the working directory;
  empty and \<^verbatim>\<open>.\<close> segments disappear and a \<^verbatim>\<open>..\<close> segment removes the segment before
  it (none at the root). The result is the list of segments of the absolute path.
\<close>

fun resolve_segments :: "string list \<Rightarrow> string list \<Rightarrow> string list" where
  "resolve_segments [] acc = rev acc"
| "resolve_segments (s # rest) acc =
     (if s = [] \<or> s = ''.'' then resolve_segments rest acc
      else if s = ''..'' then resolve_segments rest (tl acc)
      else resolve_segments rest (s # acc))"

definition resolve :: "path \<Rightarrow> path \<Rightarrow> string list" where
  "resolve cwd p =
     (if isAbsolute p then resolve_segments (segments p) []
      else resolve_segments (segments cwd @ segments p) [])"

text \<open>
  \<^verbatim>\<open>path.relative(from, to)\<close>: both paths are resolved, their common leading segments
  are dropped, and the result climbs out of what is left of \<open>from\<close> with one \<^verbatim>\<open>..\<close> per
  segment and then descends along what is left of \<open>to\<close>.
\<close>

fun drop_common :: "string list \<Rightarrow> string list \<Rightarrow> string list \<times> string list" where
  "drop_common (a # as) (b # bs) = (if a = b then drop_common as bs else (a # as, b # bs))"
| "drop_common as bs = (as, bs)"

definition relative :: "path \<Rightarrow> path \<Rightarrow> path \<Rightarrow> path" where
  "relative cwd from to =
     (if from = to then []
      else case drop_common (resolve cwd from) (resolve cwd to) of
             (f, t) \<Rightarrow> join_segments (replicate (length f) ''..'' @ t))"

section \<open>The server state\<close>

text \<open>
  The module-level objects \<^verbatim>\<open>FILE_CACHE\<close>, \<^verbatim>\<open>CACHE_MONITORS\<close> (file-tools),
  \<^verbatim>\<open>DIR_CACHE\<close>, \<^verbatim>\<open>DIR_MONITORS\<close> (dir-tools) and \<^verbatim>\<open>MONITOR_POOL\<close> together, with the
  configuration the cache code reads at run time: the flag
  \<^verbatim>\<open>config.fileOperations.cacheMonitoring.enabled\<close> and the four
  \<^verbatim>\<open>config.fileOperations.streamThresholds\<close> (0 stands for an absent or falsy one). The
  fields of the four cache objects carry the prefixes \<open>fc_\<close>, \<open>cm_\<close>, \<open>dc_\<close> and
  \<open>dm_\<close>; \<open>fc_monitoring_enabled\<close> is \<^verbatim>\<open>FILE_CACHE.monitoring.enabled\<close>.

  The file cache counts the \<^verbatim>\<open>length\<close> of each content in \<open>fc_size\<close> (the source subtracts
  without a floor, hence \<open>int\<close>); the directory cache counts entries. A cached listing is
  the list of the entry names. A chokidar watcher as the cache code sees it is a handle and
  the \<^verbatim>\<open>_poolId\<close> that \<^verbatim>\<open>setFileChangeCallback\<close> and \<^verbatim>\<open>setDirChangeCallback\<close> attach to it.

  The content of a file reaches the cache either as a string (\<open>Text\<close>) or, when the file
  was read without an encoding, as a \<^verbatim>\<open>Buffer\<close>. The two differ in what the source tests
  with \<^verbatim>\<open>!content\<close> and \<^verbatim>\<open>if (cachedContent)\<close>: the empty string is falsy, every
  \<^verbatim>\<open>Buffer\<close> is truthy, the empty one too. A file holds a list of characters; an encoding
  the runtime knows is taken to decode it to these characters one to one, so that the size
  of the file and the \<^verbatim>\<open>length\<close> of its content agree.
\<close>

datatype file_content = Text string | Buffer string

fun truthy :: "file_content \<Rightarrow> bool" where
  "truthy (Text s) = (s \<noteq> [])"
| "truthy (Buffer b) = True"

text \<open>\<^verbatim>\<open>content.length\<close>\<close>

fun contentLength :: "file_content \<Rightarrow> nat" where
  "contentLength (Text s) = length s"
| "contentLength (Buffer b) = length b"

record cache_item =
  content :: file_content
  timestamp :: millis
  lastAccess :: millis

type_synonym listing = "string list"

record dir_item =
  d_content :: listing
  d_timestamp :: millis
  lastAccessed :: millis

record fs_watcher =
  fw_handle :: handle
  poolId :: "watcher_id option"

record server =
  MONITOR_POOL :: monitor_pool
  cacheMonitoring_enabled :: bool
  streamThresholds_read :: nat
  streamThresholds_write :: nat
  streamThresholds_append :: nat
  streamThresholds_copy :: nat
  fc_enabled :: bool
  fc_items :: "(path \<times> cache_item) list"
  fc_size :: int
  fc_maxSize :: int
  fc_maxAge :: millis
  fc_hits :: nat
  fc_misses :: nat
  fc_evictions :: nat
  fc_monitoring_enabled :: bool
  cm_enabled :: bool
  cm_watchers :: "(path \<times> fs_watcher) list"
  cm_monitoredPaths :: "path list"
  dc_enabled :: bool
  dc_maxSize :: nat
  dc_maxAge :: millis
  dc_items :: "(path \<times> dir_item) list"
  dc_hits :: nat
  dc_misses :: nat
  dc_evictions :: nat
  dm_enabled :: bool
  dm_watchers :: "(path \<times> fs_watcher) list"
  dm_monitoredPaths :: "path list"

text \<open>\<^verbatim>\<open>LARGE_FILE_THRESHOLD.read\<close> of file-tools (10 MB).\<close>

definition LARGE_FILE_THRESHOLD_read :: nat where
  "LARGE_FILE_THRESHOLD_read = 10 * 1024 * 1024"

text \<open>\<^verbatim>\<open>LARGE_FILE_THRESHOLD.write\<close> of file-tools (5 MB).\<close>

definition LARGE_FILE_THRESHOLD_write :: nat where
  "LARGE_FILE_THRESHOLD_write = 5 * 1024 * 1024"

section \<open>Watchers for the caches (src/tools/watch-tools.js)\<close>

text \<open>
  What one attempt to create a watcher finds outside the program: whether the target exists
  and is of the expected kind, the handle \<^verbatim>\<open>chokidar.watch\<close> returns (\<open>None\<close> when it
  throws), the process id, the path normalisation of the runtime and the readings of
  \<^verbatim>\<open>addWatcher\<close>.
\<close>

record watch_env =
  we_normalize :: "path \<Rightarrow> path"
  we_target_ok :: bool
  we_new_handle :: "handle option"
  we_pid :: string
  we_add :: add_env

definition setChangeCallback ::
  "watch_type \<Rightarrow> watch_env \<Rightarrow> path \<Rightarrow> monitor_pool \<Rightarrow> fs_watcher option \<times> monitor_pool"
where
  "setChangeCallback type env targetPath pool =
     (if targetPath = [] then (None, pool)
      else if \<not> we_target_ok env then (None, pool)
      else case we_new_handle env of
             None \<Rightarrow> (None, pool)
           | Some watcher \<Rightarrow>
               (case addWatcher (we_normalize env) (we_add env) targetPath (Some watcher) type
                       (we_pid env) pool of
                  (None, pool1) \<Rightarrow> (None, pool1)
                | (Some watcherInfo, pool1) \<Rightarrow>
                    (Some \<lparr>fw_handle = watcher, poolId = Some (w_id watcherInfo)\<rparr>, pool1)))"

text \<open>
  \<^verbatim>\<open>setFileChangeCallback\<close> and \<^verbatim>\<open>setDirChangeCallback\<close> run the same steps and differ
  in the kind of target they accept, in the events they forward to the callback and in the
  type they register with the pool. The table of callbacks they also fill is not read by
  the cache code and is left out.
\<close>

definition setFileChangeCallback ::
  "watch_env \<Rightarrow> path \<Rightarrow> monitor_pool \<Rightarrow> fs_watcher option \<times> monitor_pool" where
  "setFileChangeCallback = setChangeCallback FileWatch"

definition setDirChangeCallback ::
  "watch_env \<Rightarrow> path \<Rightarrow> monitor_pool \<Rightarrow> fs_watcher option \<times> monitor_pool" where
  "setDirChangeCallback = setChangeCallback DirectoryWatch"

text \<open>
  \<^verbatim>\<open>closeWatcher(watcher)\<close>: a watcher with a pool id is removed through the pool, another
  one is closed directly, and an exception is caught and reported as \<open>False\<close>.
\<close>

definition closeWatcher :: "fs_watcher \<Rightarrow> monitor_pool \<Rightarrow> bool \<times> monitor_pool" where
  "closeWatcher watcher pool =
     (case poolId watcher of
        Some wid \<Rightarrow> (True, snd (removeWatcher wid pool))
      | None \<Rightarrow> (\<not> close_throws (fw_handle watcher), pool))"

text \<open>The events chokidar reports.\<close>

datatype fs_event = Add | Change | Unlink | AddDir | UnlinkDir

section \<open>The directory-listing cache (src/tools/dir-tools.js)\<close>

text \<open>
  Each function takes the reading of the clock its body takes as \<open>now\<close>; where a body
  reads the clock twice in a row (the two time stamps of a new entry, the expiry test and
  the refreshed access time of a hit) the readings are taken to be equal.
\<close>

definition stopMonitoringDirectory :: "path \<Rightarrow> server \<Rightarrow> server" where
  "stopMonitoringDirectory dirPath srv =
     (if \<not> dm_enabled srv \<or> dirPath \<notin> set (dm_monitoredPaths srv) then srv
      else case map_of (dm_watchers srv) dirPath of
             None \<Rightarrow> srv
           | Some watcher \<Rightarrow>
               srv\<lparr>MONITOR_POOL := snd (closeWatcher watcher (MONITOR_POOL srv)),
                   dm_watchers := AList.delete dirPath (dm_watchers srv),
                   dm_monitoredPaths := removeAll dirPath (dm_monitoredPaths srv)\<rparr>)"

definition monitorDirectoryForCache :: "watch_env \<Rightarrow> path \<Rightarrow> server \<Rightarrow> server" where
  "monitorDirectoryForCache env dirPath srv0 =
     (if \<not> dc_enabled srv0 \<or> \<not> cacheMonitoring_enabled srv0 then srv0
      else
        let srv = (if \<not> dm_enabled srv0 then srv0\<lparr>dm_enabled := True\<rparr> else srv0)
        in if dirPath \<in> set (dm_monitoredPaths srv) then srv
           else case setDirChangeCallback env dirPath (MONITOR_POOL srv) of
                  (None, pool1) \<Rightarrow> srv\<lparr>MONITOR_POOL := pool1\<rparr>
                | (Some watcher, pool1) \<Rightarrow>
                    srv\<lparr>MONITOR_POOL := pool1,
                        dm_watchers := AList.update dirPath watcher (dm_watchers srv),
                        dm_monitoredPaths :=
                          (if dirPath \<in> set (dm_monitoredPaths srv) then dm_monitoredPaths srv
                           else dm_monitoredPaths srv @ [dirPath])\<rparr>)"

definition getFromDirCache :: "millis \<Rightarrow> path \<Rightarrow> server \<Rightarrow> listing option \<times> server" where
  "getFromDirCache now dirPath srv =
     (if \<not> dc_enabled srv then (None, srv)
      else case map_of (dc_items srv) dirPath of
             None \<Rightarrow> (None, srv)
           | Some cacheItem \<Rightarrow>
               if now - d_timestamp cacheItem > dc_maxAge srv
               then (None, stopMonitoringDirectory dirPath
                             (srv\<lparr>dc_items := AList.delete dirPath (dc_items srv)\<rparr>))
               else (Some (d_content cacheItem),
                     srv\<lparr>dc_items := AList.update dirPath (cacheItem\<lparr>lastAccessed := now\<rparr>)
                                        (dc_items srv),
                         dc_hits := dc_hits srv + 1\<rparr>))"

text \<open>
  The search loop of \<^verbatim>\<open>evictFromDirCache\<close>, which starts from the reading of the clock
  like the one of the pool, and the eviction of the entry it finds. A path that is the
  empty string is falsy and is not evicted.
\<close>

fun findOldestDir ::
  "(path \<times> dir_item) list \<Rightarrow> millis \<Rightarrow> path option \<Rightarrow> millis \<times> path option"
where
  "findOldestDir [] oldestTime oldestPath = (oldestTime, oldestPath)"
| "findOldestDir ((p, item) # rest) oldestTime oldestPath =
     (if lastAccessed item < oldestTime then findOldestDir rest (lastAccessed item) (Some p)
      else findOldestDir rest oldestTime oldestPath)"

definition evictFromDirCache :: "millis \<Rightarrow> server \<Rightarrow> server" where
  "evictFromDirCache now srv =
     (case snd (findOldestDir (dc_items srv) now None) of
        None \<Rightarrow> srv
      | Some oldestPath \<Rightarrow>
          if oldestPath = [] then srv
          else (stopMonitoringDirectory oldestPath
                  (srv\<lparr>dc_items := AList.delete oldestPath (dc_items srv)\<rparr>))
                 \<lparr>dc_evictions := dc_evictions srv + 1\<rparr>)"

text \<open>
  \<^verbatim>\<open>addToDirCache(dirPath, content)\<close>; \<open>evictNow\<close> is the reading
  \<^verbatim>\<open>evictFromDirCache\<close> takes, \<open>now\<close> the one of the new entry.
\<close>

definition addToDirCache ::
  "millis \<Rightarrow> millis \<Rightarrow> watch_env \<Rightarrow> path \<Rightarrow> listing \<Rightarrow> server \<Rightarrow> server" where
  "addToDirCache evictNow now env dirPath listing srv0 =
     (if \<not> dc_enabled srv0 then srv0
      else
        let srv = (if length (dc_items srv0) \<ge> dc_maxSize srv0
                   then evictFromDirCache evictNow srv0 else srv0)
        in monitorDirectoryForCache env dirPath
             (srv\<lparr>dc_items := AList.update dirPath
                                  \<lparr>d_content = listing, d_timestamp = now, lastAccessed = now\<rparr>
                                  (dc_items srv)\<rparr>))"

definition invalidateDirCache :: "path \<Rightarrow> server \<Rightarrow> server" where
  "invalidateDirCache dirPath srv =
     (if \<not> dc_enabled srv then srv
      else
        let srv1 = srv\<lparr>dc_items := AList.delete dirPath (dc_items srv)\<rparr>;
            parentDir = dirname dirPath
        in if parentDir \<noteq> dirPath
           then srv1\<lparr>dc_items := AList.delete parentDir (dc_items srv1)\<rparr>
           else srv1)"

text \<open>
  The callback \<^verbatim>\<open>monitorDirectoryForCache\<close> registers for the watched directory
  \<open>dirPath\<close>; \<open>cwd\<close> is the working directory \<^verbatim>\<open>path.relative\<close> resolves against.
\<close>

definition dirChangeCallback :: "path \<Rightarrow> path \<Rightarrow> fs_event \<Rightarrow> path \<Rightarrow> server \<Rightarrow> server" where
  "dirChangeCallback cwd dirPath event changedPath srv0 =
     (let srv = invalidateDirCache dirPath srv0
      in if changedPath \<noteq> [] \<and> changedPath \<noteq> dirPath
         then
           let relativePath = relative cwd dirPath changedPath
           in if \<not> startsWith relativePath ''..'' \<and> \<not> isAbsolute relativePath
              then
                let parentDir = dirname changedPath
                in if parentDir \<noteq> dirPath then invalidateDirCache parentDir srv else srv
              else srv
         else srv)"

section \<open>The file-content cache (tools/file-tools, \<^verbatim>\<open>src/unnamed/part_007\<close>)\<close>

definition stopMonitoringFile :: "path \<Rightarrow> server \<Rightarrow> server" where
  "stopMonitoringFile filePath srv =
     (if \<not> cm_enabled srv \<or> filePath \<notin> set (cm_monitoredPaths srv) then srv
      else case map_of (cm_watchers srv) filePath of
             None \<Rightarrow> srv
           | Some watcher \<Rightarrow>
               srv\<lparr>MONITOR_POOL := snd (closeWatcher watcher (MONITOR_POOL srv)),
                   cm_watchers := AList.delete filePath (cm_watchers srv),
                   cm_monitoredPaths := removeAll filePath (cm_monitoredPaths srv)\<rparr>)"

definition monitorFileForCache :: "watch_env \<Rightarrow> path \<Rightarrow> server \<Rightarrow> server" where
  "monitorFileForCache env filePath srv0 =
     (if \<not> fc_enabled srv0 \<or> \<not> cacheMonitoring_enabled srv0 then srv0
      else
        let srv = (if \<not> cm_enabled srv0 then srv0\<lparr>cm_enabled := True\<rparr> else srv0)
        in if filePath \<in> set (cm_monitoredPaths srv) then srv
           else case setFileChangeCallback env filePath (MONITOR_POOL srv) of
                  (None, pool1) \<Rightarrow> srv\<lparr>MONITOR_POOL := pool1\<rparr>
                | (Some watcher, pool1) \<Rightarrow>
                    srv\<lparr>MONITOR_POOL := pool1,
                        cm_watchers := AList.update filePath watcher (cm_watchers srv),
                        cm_monitoredPaths :=
                          (if filePath \<in> set (cm_monitoredPaths srv) then cm_monitoredPaths srv
                           else cm_monitoredPaths srv @ [filePath])\<rparr>)"

text \<open>
  The callback \<^verbatim>\<open>monitorFileForCache\<close> registers for the file \<open>filePath\<close>. It uses the
  path it was created for, not the path of the event.
\<close>

definition fileChangeCallback :: "path \<Rightarrow> fs_event \<Rightarrow> path \<Rightarrow> server \<Rightarrow> server" where
  "fileChangeCallback filePath event changedPath srv =
     (if event = Change \<or> event = Unlink
      then (if map_of (fc_items srv) filePath \<noteq> None
            then invalidateDirCache (dirname filePath)
                   (srv\<lparr>fc_items := AList.delete filePath (fc_items srv)\<rparr>)
            else srv)
      else srv)"

text \<open>\<^verbatim>\<open>getFromCache(filePath)\<close>: \<open>None\<close> is \<^verbatim>\<open>null\<close>.\<close>

definition getFromCache ::
  "millis \<Rightarrow> path \<Rightarrow> server \<Rightarrow> file_content option \<times> server"
where
  "getFromCache now filePath srv =
     (if \<not> fc_enabled srv then (None, srv)
      else case map_of (fc_items srv) filePath of
             None \<Rightarrow> (None, srv\<lparr>fc_misses := fc_misses srv + 1\<rparr>)
           | Some cacheItem \<Rightarrow>
               if now - timestamp cacheItem > fc_maxAge srv
               then
                 let srv1 = (if fc_monitoring_enabled srv then stopMonitoringFile filePath srv
                             else srv)
                 in (None, srv1\<lparr>fc_items := AList.delete filePath (fc_items srv1),
                                fc_size := fc_size srv1 - int (contentLength (content cacheItem)),
                                fc_evictions := fc_evictions srv1 + 1\<rparr>)
               else (Some (content cacheItem),
                     srv\<lparr>fc_hits := fc_hits srv + 1,
                         fc_items := AList.update filePath (cacheItem\<lparr>lastAccess := now\<rparr>)
                                        (fc_items srv)\<rparr>))"

text \<open>
  \<^verbatim>\<open>ensureCacheSpace(requiredSpace)\<close>: the entries are sorted by \<open>lastAccess\<close> (the sort of
  the runtime is stable, as \<open>sort_key\<close> is) and evicted from the front until the new
  content fits or no entry is left.
\<close>

fun evictUntilFits :: "nat \<Rightarrow> (path \<times> cache_item) list \<Rightarrow> server \<Rightarrow> server" where
  "evictUntilFits requiredSpace [] srv = srv"
| "evictUntilFits requiredSpace ((key, item) # rest) srv =
     (let srv1 = (if fc_monitoring_enabled srv then stopMonitoringFile key srv else srv);
          srv2 = srv1\<lparr>fc_items := AList.delete key (fc_items srv1),
                      fc_size := fc_size srv1 - int (contentLength (content item)),
                      fc_evictions := fc_evictions srv1 + 1\<rparr>
      in if fc_size srv2 + int requiredSpace \<le> fc_maxSize srv2 then srv2
         else evictUntilFits requiredSpace rest srv2)"

definition ensureCacheSpace :: "nat \<Rightarrow> server \<Rightarrow> server" where
  "ensureCacheSpace requiredSpace srv =
     (if fc_size srv + int requiredSpace \<le> fc_maxSize srv then srv
      else evictUntilFits requiredSpace
             (sort_key (\<lambda>(key, item). lastAccess item) (fc_items srv)) srv)"

text \<open>
  \<^verbatim>\<open>addToCache(filePath, content)\<close>: a falsy content, that is the empty string, is not
  stored, and neither is one longer than \<^verbatim>\<open>LARGE_FILE_THRESHOLD.read\<close>.
\<close>

definition addToCache ::
  "millis \<Rightarrow> watch_env \<Rightarrow> path \<Rightarrow> file_content \<Rightarrow> server \<Rightarrow> server"
where
  "addToCache now env filePath newContent srv0 =
     (if \<not> fc_enabled srv0 \<or> \<not> truthy newContent then srv0
      else if contentLength newContent > LARGE_FILE_THRESHOLD_read then srv0
      else
        let srv1 = (case map_of (fc_items srv0) filePath of
                      None \<Rightarrow> srv0
                    | Some oldItem \<Rightarrow>
                        srv0\<lparr>fc_size := fc_size srv0 - int (contentLength (content oldItem))\<rparr>);
            srv2 = ensureCacheSpace (contentLength newContent) srv1;
            srv3 = srv2\<lparr>fc_items := AList.update filePath
                                       \<lparr>content = newContent, timestamp = now, lastAccess = now\<rparr>
                                       (fc_items srv2),
                        fc_size := fc_size srv2 + int (contentLength newContent)\<rparr>
        in if fc_monitoring_enabled srv3 then monitorFileForCache env filePath srv3 else srv3)"

section \<open>File operations (tools/file-tools, \<^verbatim>\<open>src/unnamed/part_007\<close>)\<close>

text \<open>
  The file system is a map from the paths that exist to nodes; of a regular file it holds
  the content. Each operation takes \<open>allowed\<close>, the answer of
  \<^verbatim>\<open>securityUtils.validateToolCall\<close>, and the writing ones take \<open>io_ok\<close>, which says whether
  the operating system carries out the call that writes, copies or removes. An operation
  ends in one of three ways: it throws, it returns \<^verbatim>\<open>{success: false}\<close>, or it returns
  \<^verbatim>\<open>{success: true}\<close> with a payload.
\<close>

datatype node = FileNode string | DirNode

type_synonym fs = "path \<Rightarrow> node option"

datatype 'a outcome = Thrown | Failed | Succeeded 'a

text \<open>\<^verbatim>\<open>config?.fileOperations?.streamThresholds?.x || LARGE_FILE_THRESHOLD.y\<close>\<close>

definition threshold_or :: "nat \<Rightarrow> nat \<Rightarrow> nat" where
  "threshold_or configured fallback = (if configured = 0 then fallback else configured)"

text \<open>
  \<^verbatim>\<open>fs.mkdirSync(dir, {recursive: true})\<close>: the directory is created together with every
  ancestor that is missing. The call throws (\<open>None\<close>) when a regular file stands where a
  directory is needed.
\<close>

function mkdirRecursive :: "path \<Rightarrow> fs \<Rightarrow> fs option" where
  "mkdirRecursive dir files =
     (case files dir of
        Some DirNode \<Rightarrow> Some files
      | Some (FileNode data) \<Rightarrow> None
      | None \<Rightarrow>
          if dirname dir = dir then Some (files(dir \<mapsto> DirNode))
          else case mkdirRecursive (dirname dir) files of
                 None \<Rightarrow> None
               | Some withParent \<Rightarrow> Some (withParent(dir \<mapsto> DirNode)))"
  by pat_completeness auto
termination
proof (relation "measure (\<lambda>(dir, files). if dir = ''/'' \<or> dir = ''.'' then 0 else length dir + 1)")
  show "wf (measure (\<lambda>(dir, files :: fs).
              if dir = ''/'' \<or> dir = ''.'' then 0 else length dir + 1))"
    by simp
next
  fix dir :: path and files :: fs
  assume up: "dirname dir \<noteq> dir"
  have scan: "dirname_scan cs m = Some e \<Longrightarrow> e \<le> length cs \<and> (m \<longrightarrow> e < length cs)"
    for cs m e
  proof (induction cs arbitrary: m)
    case Nil
    then show ?case by simp
  next
    case (Cons c cs)
    show ?case
    proof (cases "c = CHR ''/'' \<and> \<not> m")
      case True
      with Cons.prems show ?thesis by auto
    next
      case False
      with Cons.prems have "dirname_scan cs (c = CHR ''/'' \<and> m) = Some e"
        by (auto split: if_splits)
      from Cons.IH[OF this] show ?thesis by simp
    qed
  qed
  have shorter: "dirname dir = ''/'' \<or> dirname dir = ''.'' \<or> length (dirname dir) < length dir"
  proof (cases "dir = []")
    case True
    then show ?thesis by (simp add: dirname_def)
  next
    case False
    show ?thesis
    proof (cases "dirname_scan (rev (tl dir)) True")
      case None
      with False show ?thesis by (simp add: dirname_def)
    next
      case (Some e)
      from scan[OF Some] have "e < length dir - 1" by simp
      with False Some show ?thesis by (auto simp: dirname_def)
    qed
  qed
  have root: "dir \<noteq> ''/'' \<and> dir \<noteq> ''.''"
    using up by (auto simp: dirname_def)
  show "((dirname dir, files), dir, files)
          \<in> measure (\<lambda>(dir, files). if dir = ''/'' \<or> dir = ''.'' then 0 else length dir + 1)"
    using shorter root by auto
qed

declare mkdirRecursive.simps [simp del]

text \<open>\<^verbatim>\<open>if (!fs.existsSync(dir)) { fs.mkdirSync(dir, { recursive: true }); }\<close>\<close>

definition ensureDirectory :: "path \<Rightarrow> fs \<Rightarrow> fs option" where
  "ensureDirectory dir files = (if files dir \<noteq> None then Some files else mkdirRecursive dir files)"

text \<open>
  The \<^verbatim>\<open>encoding\<close> of a read: the name of an encoding the runtime knows (\<^verbatim>\<open>utf8\<close> when the
  parameter is absent), no encoding (\<^verbatim>\<open>null\<close> or the empty string), or anything else.
  \<^verbatim>\<open>fs.readFileSync(filePath, encoding)\<close> returns a string in the first case and a
  \<^verbatim>\<open>Buffer\<close> in the second, and throws (\<open>None\<close>) in the third.
\<close>

datatype read_encoding = TextEncoding | NoEncoding | UnknownEncoding

definition readFileSync :: "read_encoding \<Rightarrow> string \<Rightarrow> file_content option" where
  "readFileSync encoding data =
     (case encoding of
        TextEncoding \<Rightarrow> Some (Text data)
      | NoEncoding \<Rightarrow> Some (Buffer data)
      | UnknownEncoding \<Rightarrow> None)"

text \<open>
  \<^verbatim>\<open>readLargeFile\<close>: the chunks of the stream are appended to a string, so the result is a
  string also when the chunks are \<^verbatim>\<open>Buffer\<close>s. Every failure is returned.
\<close>

definition readLargeFile :: "read_encoding \<Rightarrow> node \<Rightarrow> file_content outcome" where
  "readLargeFile encoding nd =
     (case nd of
        DirNode \<Rightarrow> Failed
      | FileNode data \<Rightarrow> (if encoding = UnknownEncoding then Failed else Succeeded (Text data)))"

text \<open>
  \<^verbatim>\<open>readFile\<close>: \<open>getNow\<close> is the reading of \<^verbatim>\<open>getFromCache\<close>, \<open>addNow\<close> the one of
  \<^verbatim>\<open>addToCache\<close>. A cached content is served only when it is truthy. What the cache does
  not serve is read from the file system: a file above the read threshold is streamed and
  not cached, any other is read at once and cached when it is shorter than 1 MB.
\<close>

definition readFile ::
  "bool \<Rightarrow> read_encoding \<Rightarrow> millis \<Rightarrow> millis \<Rightarrow> watch_env \<Rightarrow> fs \<Rightarrow> path \<Rightarrow> server
   \<Rightarrow> file_content outcome \<times> server"
where
  "readFile allowed encoding getNow addNow env files filePath srv0 =
     (if \<not> allowed then (Thrown, srv0)
      else case files filePath of
             None \<Rightarrow> (Failed, srv0)
           | Some nd \<Rightarrow>
               let (cachedContent, srv1) =
                     (if fc_enabled srv0 then getFromCache getNow filePath srv0 else (None, srv0));
                   srv = (if fc_enabled srv0 then srv1\<lparr>fc_misses := fc_misses srv1 + 1\<rparr>
                          else srv1);
                   fromDisk =
                     (case nd of
                        DirNode \<Rightarrow> (Failed, srv)
                      | FileNode data \<Rightarrow>
                          if length data >
                               threshold_or (streamThresholds_read srv) LARGE_FILE_THRESHOLD_read
                          then (readLargeFile encoding nd, srv)
                          else case readFileSync encoding data of
                                 None \<Rightarrow> (Failed, srv)
                               | Some fileContent \<Rightarrow>
                                   (Succeeded fileContent,
                                    if fc_enabled srv \<and> length data < 1024 * 1024
                                    then addToCache addNow env filePath fileContent srv
                                    else srv))
               in case cachedContent of
                    None \<Rightarrow> fromDisk
                  | Some cached \<Rightarrow>
                      if truthy cached
                      then (Succeeded cached, srv1\<lparr>fc_hits := fc_hits srv1 + 1\<rparr>)
                      else fromDisk)"

text \<open>
  \<^verbatim>\<open>writeFile\<close>: the directory of the file is created when it is missing. A content above
  the write threshold goes through \<^verbatim>\<open>writeLargeFile\<close>, which does not touch the cache and
  returns its failures; otherwise a path that is in the cache gets the written content
  through \<^verbatim>\<open>addToCache\<close>.
\<close>

definition writeFile ::
  "bool \<Rightarrow> bool \<Rightarrow> millis \<Rightarrow> watch_env \<Rightarrow> path \<Rightarrow> string \<Rightarrow> fs \<times> server
   \<Rightarrow> unit outcome \<times> fs \<times> server"
where
  "writeFile allowed io_ok addNow env filePath newContent st =
     (case st of (files, srv) \<Rightarrow>
        if \<not> allowed then (Thrown, files, srv)
        else case ensureDirectory (dirname filePath) files of
               None \<Rightarrow> (Thrown, files, srv)
             | Some files1 \<Rightarrow>
                 if length newContent >
                      threshold_or (streamThresholds_write srv) LARGE_FILE_THRESHOLD_write
                 then (if io_ok
                       then (Succeeded (), files1(filePath \<mapsto> FileNode newContent), srv)
                       else (Failed, files1, srv))
                 else if \<not> io_ok then (Thrown, files1, srv)
                 else (Succeeded (), files1(filePath \<mapsto> FileNode newContent),
                       if fc_enabled srv \<and> map_of (fc_items srv) filePath \<noteq> None
                       then addToCache addNow env filePath (Text newContent) srv else srv))"




text \<open>
  \<^verbatim>\<open>copyFile\<close>, with \<^verbatim>\<open>copyLargeFile\<close> for a source above the copy threshold. The directory
  of the destination is created when it is missing. Every failure is returned, none is
  thrown. Neither path touches the cache.
\<close>

definition copyFile ::
  "bool \<Rightarrow> bool \<Rightarrow> bool \<Rightarrow> path \<Rightarrow> path \<Rightarrow> fs \<times> server \<Rightarrow> unit outcome \<times> fs \<times> server"
where
  "copyFile allowed io_ok overwrite source destination st =
     (case st of (files, srv) \<Rightarrow>
        if \<not> allowed then (Thrown, files, srv)
        else if files source = None then (Failed, files, srv)
        else case ensureDirectory (dirname destination) files of
               None \<Rightarrow> (Failed, files, srv)
             | Some files1 \<Rightarrow>
                 (case files1 source of
                    Some (FileNode data) \<Rightarrow>
                      if \<not> overwrite \<and> files1 destination \<noteq> None then (Failed, files1, srv)
                      else if \<not> io_ok then (Failed, files1, srv)
                      else (Succeeded (), files1(destination \<mapsto> FileNode data), srv)
                  | _ \<Rightarrow> (Failed, files1, srv)))"


section \<open>Directory operations (src/tools/dir-tools.js)\<close>



section \<open>Sequences of calls on the pool\<close>

text \<open>
  The calls that change the pool: \<^verbatim>\<open>addWatcher\<close>, \<^verbatim>\<open>removeWatcher\<close>, the sweep
  \<^verbatim>\<open>cleanupIdleWatchers\<close>, the eviction \<^verbatim>\<open>removeOldestWatcher\<close> and \<^verbatim>\<open>useWatcher\<close>; and the
  pool after a sequence of them.
\<close>

datatype pool_call =
    Register add_env path "handle option" watch_type string
  | Unregister watcher_id
  | Sweep millis
  | EvictOldest millis
  | Touch millis watcher_id

fun run_call :: "(path \<Rightarrow> path) \<Rightarrow> monitor_pool \<Rightarrow> pool_call \<Rightarrow> monitor_pool" where
  "run_call np pool (Register env targetPath watcher type pid) =
     snd (addWatcher np env targetPath watcher type pid pool)"
| "run_call np pool (Unregister watcherId) = snd (removeWatcher watcherId pool)"
| "run_call np pool (Sweep now) = snd (cleanupIdleWatchers now pool)"
| "run_call np pool (EvictOldest now) = snd (removeOldestWatcher now pool)"
| "run_call np pool (Touch now watcherId) = useWatcher now watcherId pool"

definition run_calls :: "(path \<Rightarrow> path) \<Rightarrow> pool_call list \<Rightarrow> monitor_pool \<Rightarrow> monitor_pool" where
  "run_calls np calls pool = foldl (run_call np) pool calls"

text \<open>
  The invariant of the pool: the ids are distinct, every record is indexed under its path,
  an index entry lists an id once, the index of a path holds at most \<open>maxPerPath\<close> ids,
  and the counter of a process is at least the number of records of the process and at
  most \<open>maxPerProcess\<close>.
\<close>

definition pool_ok :: "monitor_pool \<Rightarrow> bool" where
  "pool_ok pool \<longleftrightarrow>
     distinct (map fst (watchers pool)) \<and>
     (\<forall>w i. map_of (watchers pool) w = Some i \<longrightarrow>
        (\<exists>ids. map_of (pathToId pool) (w_path i) = Some ids \<and> w \<in> set ids)) \<and>
     (\<forall>p ids. map_of (pathToId pool) p = Some ids \<longrightarrow> distinct ids) \<and>
     (\<forall>p. pathWatcherCountOf pool p \<le> maxPerPath pool) \<and>
     (\<forall>pid. card {w. \<exists>i. map_of (watchers pool) w = Some i \<and> processId i = pid}
              \<le> processCountOf pool pid) \<and>
     (\<forall>pid. processCountOf pool pid \<le> maxPerProcess pool)"

text \<open>The sum of the \<^verbatim>\<open>content.length\<close> of a list of cache entries.\<close>

definition evicted_size :: "(path \<times> cache_item) list \<Rightarrow> int" where
  "evicted_size xs = (\<Sum>x\<leftarrow>xs. int (contentLength (content (snd x))))"

section \<open>Example states\<close>

text \<open>
  A pool limited to one watcher that receives two registrations within the same
  millisecond, and the same pool when the second registration comes four milliseconds
  later.
\<close>

definition pool_limit1 :: monitor_pool where
  "pool_limit1 = initial_pool 1 5 50 7200000"

definition pool_first :: monitor_pool where
  "pool_first =
     snd (addWatcher id (at_ms 5 1) ''/a'' (Some (Handle False)) FileWatch ''42'' pool_limit1)"

definition pool_same_ms :: monitor_pool where
  "pool_same_ms =
     snd (addWatcher id (at_ms 5 2) ''/b'' (Some (Handle False)) FileWatch ''42'' pool_first)"

definition add_later :: "watcher_info option \<times> monitor_pool" where
  "add_later = addWatcher id (at_ms 9 2) ''/b'' (Some (Handle False)) FileWatch ''42'' pool_first"

text \<open>
  A pool of three watchers at most, two per process: process \<open>B\<close> registers one watcher,
  then process \<open>A\<close> registers two, and later \<open>A\<close> asks for a third.
\<close>

definition pool_owner_full :: monitor_pool where
  "pool_owner_full =
     snd (addWatcher id (at_ms 3 3) ''/a2'' (Some (Handle False)) FileWatch ''A''
       (snd (addWatcher id (at_ms 2 2) ''/a1'' (Some (Handle False)) FileWatch ''A''
         (snd (addWatcher id (at_ms 1 1) ''/b'' (Some (Handle False)) FileWatch ''B''
           (initial_pool 3 5 2 7200000))))))"

definition add_third_for_A :: "watcher_info option \<times> monitor_pool" where
  "add_third_for_A =
     addWatcher id (at_ms 10 4) ''/a3'' (Some (Handle False)) FileWatch ''A'' pool_owner_full"

text \<open>A pool of two watchers at most that is full, and a registration for a third path.\<close>

definition pool_two :: monitor_pool where
  "pool_two =
     snd (addWatcher id (at_ms 2 2) ''/b'' (Some (Handle False)) FileWatch ''42''
       (snd (addWatcher id (at_ms 1 1) ''/a'' (Some (Handle False)) FileWatch ''42''
         (initial_pool 2 5 50 7200000))))"

definition add_to_pool_two :: "watcher_info option \<times> monitor_pool" where
  "add_to_pool_two =
     addWatcher id (at_ms 9 3) ''/c'' (Some (Handle False)) FileWatch ''42'' pool_two"

text \<open>
  A server with both caches and their monitoring switched on, a file cache of \<open>fileMax\<close>
  characters and a directory cache of \<open>dirMax\<close> entries; and what a successful attempt
  to create a watcher in the millisecond \<open>t\<close> finds.
\<close>

definition server_on :: "nat \<Rightarrow> nat \<Rightarrow> server" where
  "server_on fileMax dirMax =
     \<lparr>MONITOR_POOL = initial_pool 200 5 50 7200000,
      cacheMonitoring_enabled = True,
      streamThresholds_read = 0, streamThresholds_write = 0,
      streamThresholds_append = 0, streamThresholds_copy = 0,
      fc_enabled = True, fc_items = [], fc_size = 0, fc_maxSize = int fileMax, fc_maxAge = 60000,
      fc_hits = 0, fc_misses = 0, fc_evictions = 0, fc_monitoring_enabled = True,
      cm_enabled = False, cm_watchers = [], cm_monitoredPaths = [],
      dc_enabled = True, dc_maxSize = dirMax, dc_maxAge = 30000, dc_items = [],
      dc_hits = 0, dc_misses = 0, dc_evictions = 0,
      dm_enabled = False, dm_watchers = [], dm_monitoredPaths = []\<rparr>"

definition watch_at :: "millis \<Rightarrow> nat \<Rightarrow> watch_env" where
  "watch_at t r = \<lparr>we_normalize = id, we_target_ok = True, we_new_handle = Some (Handle False),
                   we_pid = ''42'', we_add = at_ms t r\<rparr>"

text \<open>
  The file \<^verbatim>\<open>/a/b.txt\<close> with content \<^verbatim>\<open>x\<close>, cached and monitored at time 1; the same
  state after a \<^verbatim>\<open>change\<close> event for the file, and after a read that finds the entry
  expired. The directory \<^verbatim>\<open>/dir\<close>, listed and cached at time 1.
\<close>

definition cached_b :: server where
  "cached_b = addToCache 1 (watch_at 1 1) ''/a/b.txt'' (Text ''x'') (server_on 100 100)"

definition changed_b :: server where
  "changed_b = fileChangeCallback ''/a/b.txt'' Change ''/a/b.txt'' cached_b"

definition expired_b :: server where
  "expired_b = snd (getFromCache 60002 ''/a/b.txt'' cached_b)"

definition listed_dir :: server where
  "listed_dir = addToDirCache 1 1 (watch_at 1 1) ''/dir'' [''f''] (server_on 100 100)"

text \<open>
  A file system in which \<^verbatim>\<open>/a/b.txt\<close> holds \<^verbatim>\<open>x\<close>, one in which it is empty, and the
  server after \<^verbatim>\<open>readFile\<close> has read the file as text while it held \<^verbatim>\<open>x\<close>. A cache that
  holds an entry whose content is the empty string (no operation of the program creates
  one). The server after \<^verbatim>\<open>readFile\<close> has read the empty file without an encoding.
\<close>

definition files_x :: fs where
  "files_x = Map.empty(''/'' \<mapsto> DirNode, ''/a'' \<mapsto> DirNode, ''/a/b.txt'' \<mapsto> FileNode ''x'')"

definition files_empty :: fs where
  "files_empty = Map.empty(''/'' \<mapsto> DirNode, ''/a'' \<mapsto> DirNode, ''/a/b.txt'' \<mapsto> FileNode [])"

definition read_b :: server where
  "read_b =
     snd (readFile True TextEncoding 1 1 (watch_at 1 1) files_x ''/a/b.txt'' (server_on 100 100))"

definition held_empty :: server where
  "held_empty =
     (server_on 100 100)
       \<lparr>fc_items := [(''/a/b.txt'', \<lparr>content = Text [], timestamp = 1, lastAccess = 1\<rparr>)]\<rparr>"

definition read_raw :: server where
  "read_raw =
     snd (readFile True NoEncoding 1 1 (watch_at 1 1) files_empty ''/a/b.txt''
            (server_on 100 100))"

text \<open>
  A directory cache of one entry that receives two listings within the same millisecond.
  Caches of two entries (two characters for the file cache) that receive \<open>A\<close> and \<open>B\<close>,
  a read of \<open>A\<close>, and then \<open>C\<close>, at the times 1, 2, 3 and 4.
\<close>

definition dir_same_ms :: server where
  "dir_same_ms =
     addToDirCache 5 5 (watch_at 5 2) ''/b'' [''g'']
       (addToDirCache 5 5 (watch_at 5 1) ''/a'' [''f''] (server_on 100 1))"

definition file_lru :: server where
  "file_lru =
     addToCache 4 (watch_at 4 4) ''/C'' (Text ''c'')
       (snd (getFromCache 3 ''/A''
          (addToCache 2 (watch_at 2 2) ''/B'' (Text ''b'')
             (addToCache 1 (watch_at 1 1) ''/A'' (Text ''a'') (server_on 2 2)))))"

definition dir_lru :: server where
  "dir_lru =
     addToDirCache 4 4 (watch_at 4 4) ''/C'' [''h'']
       (snd (getFromDirCache 3 ''/A''
          (addToDirCache 2 2 (watch_at 2 2) ''/B'' [''g'']
             (addToDirCache 1 1 (watch_at 1 1) ''/A'' [''f''] (server_on 2 2)))))"

text \<open>
  A pool that admits one watcher per process: the listing of \<^verbatim>\<open>/dir\<close> is cached and
  watched, the listing of its subdirectory \<^verbatim>\<open>/dir/..cfg\<close> is cached and the pool refuses
  its watcher. Then a file is added in the subdirectory and the watcher of \<^verbatim>\<open>/dir\<close>
  reports it.
\<close>

definition listed_nested :: server where
  "listed_nested =
     addToDirCache 2 2 (watch_at 2 2) ''/dir/..cfg'' [''old.txt'']
       (addToDirCache 1 1 (watch_at 1 1) ''/dir'' [''..cfg'']
          ((server_on 100 100)\<lparr>MONITOR_POOL := initial_pool 200 5 1 7200000\<rparr>))"

definition nested_event :: server where
  "nested_event = dirChangeCallback ''/'' ''/dir'' Add ''/dir/..cfg/new.txt'' listed_nested"

text \<open>
  The cached file \<^verbatim>\<open>/a/b.txt\<close> together with the cached listing of \<^verbatim>\<open>/a\<close>, and one
  successful operation of each kind on it; a subdirectory \<^verbatim>\<open>/a/sub\<close> that is created,
  and one that exists with a cached listing and is deleted. A file written into a
  directory that does not exist yet.
\<close>

definition listed_a :: server where
  "listed_a = addToDirCache 1 1 (watch_at 1 2) ''/a'' [''b.txt''] cached_b"









definition wrote_deep :: "unit outcome \<times> fs \<times> server" where
  "wrote_deep = writeFile True True 2 (watch_at 2 2) ''/n/m/c.txt'' ''new'' (files_x, listed_a)"

section \<open>Evaluation\<close>

text \<open>The equations that unfold the model on a concrete state.\<close>

lemmas pool_eval =
  initial_pool_def at_ms_def addWatcher_def removeOldestWatcher_def removeWatcher_def
  pathWatcherCountOf_def processCountOf_def generateWatcherId_def Let_def

lemmas cache_eval =
  server_on_def watch_at_def addToCache_def ensureCacheSpace_def getFromCache_def
  monitorFileForCache_def stopMonitoringFile_def setFileChangeCallback_def
  setDirChangeCallback_def setChangeCallback_def closeWatcher_def
  LARGE_FILE_THRESHOLD_read_def LARGE_FILE_THRESHOLD_write_def threshold_or_def
  addToDirCache_def getFromDirCache_def evictFromDirCache_def monitorDirectoryForCache_def
  stopMonitoringDirectory_def invalidateDirCache_def fileChangeCallback_def


section \<open>Properties of the watcher pool\<close>

lemma findOldest_spec:
  "findOldest ws t oid = (t', oid') \<Longrightarrow>
     t' \<le> t \<and> (\<forall>(w, i) \<in> set ws. t' \<le> createdAt i) \<and>
     ((t' = t \<and> oid' = oid) \<or>
      (t' < t \<and> (\<exists>w i. oid' = Some w \<and> (w, i) \<in> set ws \<and> createdAt i = t')))"
proof (induction ws arbitrary: t oid)
  case Nil
  then show ?case by simp
next
  case (Cons a ws)
  obtain w i where a: "a = (w, i)" by (cases a)
  show ?case
  proof (cases "createdAt i < t")
    case True
    with Cons.prems a have "findOldest ws (createdAt i) (Some w) = (t', oid')" by simp
    from Cons.IH[OF this] True a show ?thesis by fastforce
  next
    case False
    with Cons.prems a have "findOldest ws t oid = (t', oid')" by simp
    from Cons.IH[OF this] False a show ?thesis by fastforce
  qed
qed

lemma findOldest_finds:
  assumes "(w0, i0) \<in> set ws" and "createdAt i0 < now"
  shows "\<exists>w i. snd (findOldest ws now None) = Some w \<and> (w, i) \<in> set ws \<and>
           createdAt i < now \<and> (\<forall>(w', i') \<in> set ws. createdAt i \<le> createdAt i')"
proof -
  obtain t' oid' where f: "findOldest ws now None = (t', oid')"
    by (cases "findOldest ws now None")
  note s = findOldest_spec[OF f]
  from s assms have "t' \<le> createdAt i0" by fastforce
  with assms have "t' < now" by simp
  with s f show ?thesis by fastforce
qed

lemma findOldest_none:
  assumes "\<forall>(w, i) \<in> set ws. \<not> createdAt i < now"
  shows "findOldest ws now oid = (now, oid)"
  using assms by (induction ws arbitrary: oid) auto

lemma length_delete_present:
  "distinct (map fst ws) \<Longrightarrow> (k, v) \<in> set ws \<Longrightarrow> Suc (length (AList.delete k ws)) = length ws"
proof (induction ws)
  case Nil
  then show ?case by simp
next
  case (Cons a ws)
  then show ?case by (cases a) (auto simp: rev_image_eqI)
qed

lemma length_update_fresh:
  "k \<notin> fst ` set ws \<Longrightarrow> length (AList.update k v ws) = Suc (length ws)"
  by (induction ws) auto

lemma removeWatcher_present:
  assumes "map_of (watchers pool) w = Some i" and "\<not> close_throws (w_instance i)"
  shows "fst (removeWatcher w pool) = True"
    and "watchers (snd (removeWatcher w pool)) = AList.delete w (watchers pool)"
    and "closed (snd (removeWatcher w pool)) = closed pool + 1"
    and "rejected (snd (removeWatcher w pool)) = rejected pool"
    and "created (snd (removeWatcher w pool)) = created pool"
    and "maxWatchers (snd (removeWatcher w pool)) = maxWatchers pool"
  using assms by (simp_all add: removeWatcher_def Let_def)

lemma removeOldestWatcher_evicts:
  assumes d: "distinct (map fst (watchers pool))"
    and old: "(w0, i0) \<in> set (watchers pool)" "createdAt i0 < now"
    and cl: "\<forall>(w, i) \<in> set (watchers pool). \<not> close_throws (w_instance i)"
  shows "\<exists>victim vinfo. (victim, vinfo) \<in> set (watchers pool) \<and>
           (\<forall>(w, i) \<in> set (watchers pool). createdAt vinfo \<le> createdAt i) \<and>
           watchers (snd (removeOldestWatcher now pool)) = AList.delete victim (watchers pool) \<and>
           closed (snd (removeOldestWatcher now pool)) = closed pool + 1 \<and>
           rejected (snd (removeOldestWatcher now pool)) = rejected pool \<and>
           created (snd (removeOldestWatcher now pool)) = created pool \<and>
           maxWatchers (snd (removeOldestWatcher now pool)) = maxWatchers pool"
proof -
  from findOldest_finds[OF old] obtain w i where
    f: "snd (findOldest (watchers pool) now None) = Some w" and
    m: "(w, i) \<in> set (watchers pool)" and
    least: "\<forall>(w', i') \<in> set (watchers pool). createdAt i \<le> createdAt i'"
    by blast
  from d m have look: "map_of (watchers pool) w = Some i" by simp
  from cl m have ok: "\<not> close_throws (w_instance i)" by blast
  from m have ne: "watchers pool \<noteq> []" by auto
  have r: "removeOldestWatcher now pool = removeWatcher w pool"
    using f ne by (simp add: removeOldestWatcher_def)
  show ?thesis
    using m least removeWatcher_present[OF look ok] unfolding r by blast
qed

text \<open>
  C1 (the pool never holds more than \<open>maxWatchers\<close> records). The code breaks the bound:
  with \<open>maxWatchers = 1\<close>, two registrations whose clock readings fall in the same
  millisecond leave two records in the pool. The search for the oldest record starts from
  the current reading and accepts only strictly earlier creation times, so it finds no
  victim and the new record is added to the full pool. The limits per path and per
  process hold after every sequence of calls (\<open>limits_per_path_and_process_hold\<close> below).
\<close>

theorem addWatcher_same_millisecond_exceeds_maxWatchers:
  "length (watchers pool_first) = 1 \<and> maxWatchers pool_first = 1 \<and>
   length (watchers pool_same_ms) = 2 \<and> maxWatchers pool_same_ms = 1 \<and>
   closed pool_same_ms = 0"
  by (simp add: pool_same_ms_def pool_first_def pool_limit1_def pool_eval)

text \<open>
  C2, as amended. When \<open>addWatcher\<close> is called with a path and a watcher on a pool that
  holds exactly \<open>maxWatchers\<close> records, of which at least one was created before the clock
  reading of the call, no handle throws when closed and the generated id is not in use,
  then exactly one record is evicted and no record of the pool was created before it.
  The checks per path and per process run after the eviction: when the call returns a
  record, the pool holds \<open>maxWatchers\<close> records again; when it returns \<^verbatim>\<open>null\<close>, the pool is
  left with one record less than \<open>maxWatchers\<close>.
\<close>

theorem addWatcher_full_pool_evicts_oldest:
  assumes d: "distinct (map fst (watchers pool))"
    and full: "length (watchers pool) = maxWatchers pool"
    and old: "\<exists>(w, i) \<in> set (watchers pool). createdAt i < evict_now env"
    and cl: "\<forall>(w, i) \<in> set (watchers pool). \<not> close_throws (w_instance i)"
    and fresh: "generateWatcherId (id_now env) (id_random env) \<notin> fst ` set (watchers pool)"
    and arg: "targetPath \<noteq> []"
  shows "\<exists>victim vinfo.
           (victim, vinfo) \<in> set (watchers pool) \<and>
           (\<forall>(w, i) \<in> set (watchers pool). createdAt vinfo \<le> createdAt i) \<and>
           closed (snd (addWatcher np env targetPath (Some inst) ty pid pool)) = closed pool + 1 \<and>
           maxWatchers (snd (addWatcher np env targetPath (Some inst) ty pid pool)) =
             maxWatchers pool \<and>
           (case fst (addWatcher np env targetPath (Some inst) ty pid pool) of
              None \<Rightarrow>
                watchers (snd (addWatcher np env targetPath (Some inst) ty pid pool)) =
                  AList.delete victim (watchers pool) \<and>
                Suc (length (watchers (snd (addWatcher np env targetPath (Some inst) ty pid pool)))) =
                  maxWatchers pool
            | Some info \<Rightarrow>
                watchers (snd (addWatcher np env targetPath (Some inst) ty pid pool)) =
                  AList.update (w_id info) info (AList.delete victim (watchers pool)) \<and>
                length (watchers (snd (addWatcher np env targetPath (Some inst) ty pid pool))) =
                  maxWatchers pool)"
proof -
  let ?p0 = "pool\<lparr>rejected := rejected pool + 1\<rparr>"
  let ?p1 = "snd (removeOldestWatcher (evict_now env) ?p0)"
  let ?wid = "generateWatcherId (id_now env) (id_random env)"
  from old obtain w0 i0 where o: "(w0, i0) \<in> set (watchers ?p0)" "createdAt i0 < evict_now env"
    by auto
  have d0: "distinct (map fst (watchers ?p0))" using d by simp
  have cl0: "\<forall>(w, i) \<in> set (watchers ?p0). \<not> close_throws (w_instance i)" using cl by simp
  from removeOldestWatcher_evicts[OF d0 o cl0] obtain victim vinfo where
    v: "(victim, vinfo) \<in> set (watchers pool)" and
    least: "\<forall>(w, i) \<in> set (watchers pool). createdAt vinfo \<le> createdAt i" and
    w1: "watchers ?p1 = AList.delete victim (watchers pool)" and
    c1: "closed ?p1 = closed pool + 1" and
    m1: "maxWatchers ?p1 = maxWatchers pool"
    by auto
  have len1: "Suc (length (watchers ?p1)) = maxWatchers pool"
    using length_delete_present[OF d v] full w1 by simp
  have "?wid \<notin> fst ` set (AList.delete victim (watchers pool))"
    using fresh dom_delete_subset[of victim "watchers pool"] by blast
  then have len2: "length (AList.update ?wid x (watchers ?p1)) = maxWatchers pool" for x
    using length_update_fresh[of ?wid "watchers ?p1" x] w1 len1 by simp
  have "closed (snd (addWatcher np env targetPath (Some inst) ty pid pool)) = closed pool + 1 \<and>
        maxWatchers (snd (addWatcher np env targetPath (Some inst) ty pid pool)) =
          maxWatchers pool \<and>
        (case fst (addWatcher np env targetPath (Some inst) ty pid pool) of
           None \<Rightarrow>
             watchers (snd (addWatcher np env targetPath (Some inst) ty pid pool)) =
               AList.delete victim (watchers pool) \<and>
             Suc (length (watchers (snd (addWatcher np env targetPath (Some inst) ty pid pool)))) =
               maxWatchers pool
         | Some info \<Rightarrow>
             watchers (snd (addWatcher np env targetPath (Some inst) ty pid pool)) =
               AList.update (w_id info) info (AList.delete victim (watchers pool)) \<and>
             length (watchers (snd (addWatcher np env targetPath (Some inst) ty pid pool))) =
               maxWatchers pool)"
    using arg full c1 m1 len1 len2 w1
    by (simp add: addWatcher_def Let_def)
  with v least show ?thesis by blast
qed

theorem addWatcher_full_pool_evicts_oldest_witness:
  "length (watchers pool_two) = maxWatchers pool_two \<and>
   map fst (watchers pool_two) = [WatcherId 1 1, WatcherId 2 2] \<and>
   closed (snd add_to_pool_two) = closed pool_two + 1 \<and>
   map fst (watchers (snd add_to_pool_two)) = [WatcherId 2 2, WatcherId 9 3] \<and>
   length (watchers (snd add_to_pool_two)) = maxWatchers pool_two"
proof -
  have h1: "distinct (map fst (watchers pool_two))"
    by (simp add: pool_two_def pool_eval)
  have h2: "length (watchers pool_two) = maxWatchers pool_two"
    by (simp add: pool_two_def pool_eval)
  have h3: "\<exists>(w, i) \<in> set (watchers pool_two). createdAt i < evict_now (at_ms 9 3)"
    by (simp add: pool_two_def pool_eval)
  have h4: "\<forall>(w, i) \<in> set (watchers pool_two). \<not> close_throws (w_instance i)"
    by (simp add: pool_two_def pool_eval)
  have h5: "generateWatcherId (id_now (at_ms 9 3)) (id_random (at_ms 9 3))
              \<notin> fst ` set (watchers pool_two)"
    by (simp add: pool_two_def pool_eval)
  have h6: "''/c'' \<noteq> []" by simp
  show ?thesis
    using addWatcher_full_pool_evicts_oldest
            [OF h1 h2 h3 h4 h5 h6, of id "Handle False" FileWatch "''42''"]
    by (simp add: add_to_pool_two_def pool_two_def pool_eval)
qed

text \<open>
  C2 as the claim states it fails: the pool below holds \<open>maxWatchers = 3\<close> records, the
  registration evicts the oldest one, and then the limit per process rejects the request,
  so that no record is admitted and the pool is left with two records.
\<close>

theorem addWatcher_full_pool_rejects_after_eviction:
  "length (watchers pool_owner_full) = maxWatchers pool_owner_full \<and>
   fst add_third_for_A = None \<and>
   closed (snd add_third_for_A) = closed pool_owner_full + 1 \<and>
   length (watchers (snd add_third_for_A)) = 2 \<and>
   maxWatchers (snd add_third_for_A) = 3"
  by (simp add: add_third_for_A_def pool_owner_full_def pool_eval)

lemma addWatcher_rejects_at_limit:
  assumes "targetPath \<noteq> []" and "length (watchers pool) < maxWatchers pool"
    and "pathWatcherCountOf pool (np targetPath) \<ge> maxPerPath pool \<or>
         processCountOf pool pid \<ge> maxPerProcess pool"
  shows "addWatcher np env targetPath (Some inst) ty pid pool =
           (None, pool\<lparr>rejected := rejected pool + 1\<rparr>)"
  using assms by (auto simp: addWatcher_def Let_def)

text \<open>
  C9 (the counter \<open>rejected\<close> equals the number of registrations that returned \<^verbatim>\<open>null\<close>).
  The code counts a rejection whenever it finds the pool full, before it evicts the oldest
  record and goes on: the registration below returns a record, and \<open>rejected\<close> is 1
  although no call has returned \<^verbatim>\<open>null\<close>. A registration that finds a limit per path
  or per process reached on a pool that is not full returns \<^verbatim>\<open>null\<close>, inserts nothing
  and counts one rejection (\<open>addWatcher_rejects_at_limit\<close> above).
\<close>

theorem addWatcher_counts_rejection_of_admitted_request:
  "rejected pool_first = 0 \<and>
   map_option w_path (fst add_later) = Some ''/b'' \<and>
   map fst (watchers (snd add_later)) = [WatcherId 9 2] \<and>
   rejected (snd add_later) = 1"
  by (simp add: add_later_def pool_first_def pool_limit1_def pool_eval)

subsection \<open>The limits per path and per process\<close>

lemma finite_records: "finite {w. \<exists>i. map_of al w = Some i \<and> P i}"
  by (rule finite_subset[OF _ finite_dom_map_of[of al]]) auto

lemma pool_ok_initial: "pool_ok (initial_pool mw mpp mpr idle)"
  by (simp add: pool_ok_def initial_pool_def pathWatcherCountOf_def processCountOf_def)

lemma pool_ok_rejected: "pool_ok (pool\<lparr>rejected := r\<rparr>) = pool_ok pool"
  by (simp add: pool_ok_def pathWatcherCountOf_def processCountOf_def)

lemma pool_ok_removeWatcher:
  assumes ok: "pool_ok pool"
  shows "pool_ok (snd (removeWatcher w pool))"
proof (cases "map_of (watchers pool) w")
  case None
  then show ?thesis using ok by (simp add: removeWatcher_def)
next
  case (Some i0)
  show ?thesis
  proof (cases "close_throws (w_instance i0)")
    case True
    then show ?thesis using ok Some by (simp add: removeWatcher_def)
  next
    case False
    let ?q = "w_path i0" and ?pid = "processId i0"
    let ?c = "processCountOf pool ?pid"
    define p2i where "p2i = (case map_of (pathToId pool) ?q of
                         None \<Rightarrow> pathToId pool
                       | Some ids \<Rightarrow>
                           if removeAll w ids = []
                           then AList.delete ?q (pathToId pool)
                           else AList.update ?q (removeAll w ids) (pathToId pool))"
    define pm where "pm = (if ?c > 1 then AList.update ?pid (?c - 1) (processMap pool)
                      else AList.delete ?pid (processMap pool))"
    define pool' where "pool' = pool\<lparr>watchers := AList.delete w (watchers pool), pathToId := p2i,
         processMap := pm, closed := closed pool + 1,
         activeCount := length (AList.delete w (watchers pool))\<rparr>"
    have r: "snd (removeWatcher w pool) = pool'"
      using Some False by (simp add: removeWatcher_def Let_def pool'_def p2i_def pm_def)
    from ok have d: "distinct (map fst (watchers pool))"
      and idx: "\<And>w i. map_of (watchers pool) w = Some i \<Longrightarrow>
                 \<exists>ids. map_of (pathToId pool) (w_path i) = Some ids \<and> w \<in> set ids"
      and dis: "\<And>p ids. map_of (pathToId pool) p = Some ids \<Longrightarrow> distinct ids"
      and lp: "\<And>p. pathWatcherCountOf pool p \<le> maxPerPath pool"
      and cnt: "\<And>pid. card {w. \<exists>i. map_of (watchers pool) w = Some i \<and> processId i = pid}
                  \<le> processCountOf pool pid"
      and lpr: "\<And>pid. processCountOf pool pid \<le> maxPerProcess pool"
      by (auto simp: pool_ok_def)
    from idx[OF Some] obtain ids0 where ids0: "map_of (pathToId pool) ?q = Some ids0" "w \<in> set ids0"
      by blast
    have look: "map_of p2i p =
                  (if p = ?q then (if removeAll w ids0 = [] then None else Some (removeAll w ids0))
                   else map_of (pathToId pool) p)" for p
      using ids0 by (simp add: p2i_def update_conv' delete_conv')
    have wmap: "map_of (watchers pool') w' = (if w' = w then None else map_of (watchers pool) w')" for w'
      by (simp add: pool'_def delete_conv')
    have pc: "processCountOf pool' pid =
                (if pid = ?pid then (if ?c > 1 then ?c - 1 else 0) else processCountOf pool pid)" for pid
      by (simp add: pool'_def pm_def processCountOf_def update_conv' delete_conv')
    have 1: "distinct (map fst (watchers pool'))"
      using d by (simp add: pool'_def distinct_delete)
    have 2: "\<exists>ids. map_of (pathToId pool') (w_path i) = Some ids \<and> w' \<in> set ids"
      if "map_of (watchers pool') w' = Some i" for w' i
    proof -
      from that have ne: "w' \<noteq> w" and old: "map_of (watchers pool) w' = Some i"
        by (auto simp: wmap split: if_splits)
      from idx[OF old] obtain ids where ids: "map_of (pathToId pool) (w_path i) = Some ids" "w' \<in> set ids"
        by blast
      show ?thesis
      proof (cases "w_path i = ?q")
        case True
        with ids ids0 have m: "w' \<in> set (removeAll w ids0)" using ne by simp
        then have "removeAll w ids0 \<noteq> []" by (metis empty_iff empty_set)
        with m show ?thesis using True by (simp add: pool'_def look)
      next
        case False
        then show ?thesis using ids by (simp add: pool'_def look)
      qed
    qed
    have 3: "distinct ids" if "map_of (pathToId pool') p = Some ids" for p ids
      using that dis[of p ids] dis[OF ids0(1)]
      by (auto simp: pool'_def look distinct_removeAll split: if_splits)
    have 4: "pathWatcherCountOf pool' p \<le> maxPerPath pool'" for p
    proof -
      have "pathWatcherCountOf pool' p \<le> pathWatcherCountOf pool p"
        using ids0 length_removeAll_less_eq[of w ids0]
        by (auto simp: pathWatcherCountOf_def pool'_def look)
      then show ?thesis using lp[of p] by (simp add: pool'_def)
    qed
    have 5: "card {w'. \<exists>i. map_of (watchers pool') w' = Some i \<and> processId i = pid}
               \<le> processCountOf pool' pid" for pid
    proof (cases "pid = ?pid")
      case True
      let ?S = "{w'. \<exists>i. map_of (watchers pool) w' = Some i \<and> processId i = ?pid}"
      have eq: "{w'. \<exists>i. map_of (watchers pool') w' = Some i \<and> processId i = pid} = ?S - {w}"
        using True by (auto simp: wmap)
      define n where "n = card ?S"
      have "w \<in> ?S" using Some by simp
      then have "card (?S - {w}) = n - 1" "0 < n"
        using finite_records[of "watchers pool" "\<lambda>i. processId i = ?pid"]
        by (auto simp: card_gt_0_iff n_def)
      moreover have "n \<le> ?c" using cnt[of ?pid] by (simp add: n_def)
      ultimately have "card (?S - {w}) \<le> (if ?c > 1 then ?c - 1 else 0)"
        by auto
      then show ?thesis unfolding eq using True by (simp add: pc)
    next
      case False
      have "{w'. \<exists>i. map_of (watchers pool') w' = Some i \<and> processId i = pid}
              = {w'. \<exists>i. map_of (watchers pool) w' = Some i \<and> processId i = pid}"
        using False Some by (auto simp: wmap)
      with cnt[of pid] False show ?thesis by (simp add: pc)
    qed
    have 6: "processCountOf pool' pid \<le> maxPerProcess pool'" for pid
    proof -
      have "maxPerProcess pool' = maxPerProcess pool" by (simp add: pool'_def)
      then show ?thesis using lpr[of pid] lpr[of ?pid] by (auto simp: pc)
    qed
    show ?thesis unfolding r pool_ok_def using 1 2 3 4 5 6 by blast
  qed
qed


lemma pool_ok_removeOldestWatcher:
  "pool_ok pool \<Longrightarrow> pool_ok (snd (removeOldestWatcher now pool))"
  by (simp add: removeOldestWatcher_def pool_ok_removeWatcher split: option.splits)

lemma pool_ok_removeEach:
  "pool_ok pool \<Longrightarrow> pool_ok (snd (removeEach ws pool))"
proof (induction ws arbitrary: pool)
  case Nil
  then show ?case by simp
next
  case (Cons w ws)
  from Cons.IH[OF pool_ok_removeWatcher[OF Cons.prems, of w]]
  show ?case by (simp add: Let_def case_prod_beta)
qed

lemma pool_ok_cleanupIdleWatchers:
  "pool_ok pool \<Longrightarrow> pool_ok (snd (cleanupIdleWatchers now pool))"
  by (simp add: cleanupIdleWatchers_def pool_ok_removeEach)

lemma pool_ok_useWatcher:
  assumes ok: "pool_ok pool"
  shows "pool_ok (useWatcher now w pool)"
proof (cases "map_of (watchers pool) w")
  case None
  then show ?thesis using ok by (simp add: useWatcher_def)
next
  case (Some i0)
  define i1 where "i1 = i0\<lparr>lastUsedAt := now, useCount := useCount i0 + 1\<rparr>"
  define pool' where "pool' = pool\<lparr>watchers := AList.update w i1 (watchers pool)\<rparr>"
  have u: "useWatcher now w pool = pool'"
    using Some by (simp add: useWatcher_def pool'_def i1_def)
  have i1: "w_path i1 = w_path i0" "processId i1 = processId i0" by (simp_all add: i1_def)
  from ok have d: "distinct (map fst (watchers pool))"
    and idx: "\<And>w i. map_of (watchers pool) w = Some i \<Longrightarrow>
               \<exists>ids. map_of (pathToId pool) (w_path i) = Some ids \<and> w \<in> set ids"
    and dis: "\<And>p ids. map_of (pathToId pool) p = Some ids \<Longrightarrow> distinct ids"
    and lp: "\<And>p. pathWatcherCountOf pool p \<le> maxPerPath pool"
    and cnt: "\<And>pid. card {w. \<exists>i. map_of (watchers pool) w = Some i \<and> processId i = pid}
                \<le> processCountOf pool pid"
    and lpr: "\<And>pid. processCountOf pool pid \<le> maxPerProcess pool"
    by (auto simp: pool_ok_def)
  have wmap: "map_of (watchers pool') w' = (if w' = w then Some i1 else map_of (watchers pool) w')"
    for w'
    by (simp add: pool'_def update_conv')
  have rest: "pathToId pool' = pathToId pool" "maxPerPath pool' = maxPerPath pool"
    "maxPerProcess pool' = maxPerProcess pool" "processMap pool' = processMap pool"
    by (simp_all add: pool'_def)
  have 1: "distinct (map fst (watchers pool'))"
    using d by (simp add: pool'_def distinct_update)
  have 2: "\<exists>l. map_of (pathToId pool') (w_path i) = Some l \<and> w' \<in> set l"
    if "map_of (watchers pool') w' = Some i" for w' i
  proof (cases "w' = w")
    case True
    with that have "i = i1" by (simp add: wmap)
    with idx[OF Some] True show ?thesis by (simp add: rest i1)
  next
    case False
    with that have "map_of (watchers pool) w' = Some i" by (simp add: wmap)
    from idx[OF this] show ?thesis by (simp add: rest)
  qed
  have 3: "distinct l" if "map_of (pathToId pool') p = Some l" for p l
    using that dis[of p l] by (simp add: rest)
  have 4: "pathWatcherCountOf pool' p \<le> maxPerPath pool'" for p
    using lp[of p] by (simp add: pathWatcherCountOf_def rest)
  have same: "{w'. \<exists>i. map_of (watchers pool') w' = Some i \<and> processId i = q} =
              {w'. \<exists>i. map_of (watchers pool) w' = Some i \<and> processId i = q}" for q
    using Some by (auto simp: wmap i1 split: if_splits)
  have 5: "card {w'. \<exists>i. map_of (watchers pool') w' = Some i \<and> processId i = q}
             \<le> processCountOf pool' q" for q
    using cnt[of q] by (simp add: same processCountOf_def rest)
  have 6: "processCountOf pool' q \<le> maxPerProcess pool'" for q
    using lpr[of q] by (simp add: processCountOf_def rest)
  show ?thesis unfolding u pool_ok_def using 1 2 3 4 5 6 by blast
qed

lemma pool_ok_addWatcher:
  assumes ok0: "pool_ok pool0"
  shows "pool_ok (snd (addWatcher np env targetPath0 watcher ty pid pool0))"
proof (cases watcher)
  case None
  then show ?thesis using ok0 by (simp add: addWatcher_def)
next
  case (Some inst)
  show ?thesis
  proof (cases "targetPath0 = []")
    case True
    then show ?thesis using ok0 Some by (simp add: addWatcher_def)
  next
    case False
    define pool where "pool = (if length (watchers pool0) \<ge> maxWatchers pool0
                        then snd (removeOldestWatcher (evict_now env)
                                    (pool0\<lparr>rejected := rejected pool0 + 1\<rparr>))
                        else pool0)"
    have ok: "pool_ok pool"
      using ok0 by (simp add: pool_def pool_ok_removeOldestWatcher pool_ok_rejected)
    let ?tp = "np targetPath0"
    show ?thesis
    proof (cases "pathWatcherCountOf pool ?tp \<ge> maxPerPath pool \<or>
                  processCountOf pool pid \<ge> maxPerProcess pool")
      case True
      then have "snd (addWatcher np env targetPath0 watcher ty pid pool0) =
                   pool\<lparr>rejected := rejected pool + 1\<rparr>"
        using Some False by (auto simp: addWatcher_def Let_def simp flip: pool_def)
      then show ?thesis using ok by (simp add: pool_ok_rejected)
    next
      case lim: False
      define wid where "wid = generateWatcherId (id_now env) (id_random env)"
      define info where "info = \<lparr>w_id = wid, w_path = ?tp, w_instance = inst,
                                    w_type = ty, processId = pid,
                                    createdAt = created_now env, lastUsedAt = used_now env,
                                    useCount = 0\<rparr>"
      define ids where "ids = (case map_of (pathToId pool) ?tp of None \<Rightarrow> [] | Some l \<Rightarrow> l)"
      define ids' where "ids' = (if wid \<in> set ids then ids else ids @ [wid])"
      define pool' where "pool' = pool\<lparr>watchers := AList.update wid info (watchers pool),
                          pathToId := AList.update ?tp ids' (pathToId pool),
                          processMap := AList.update pid (processCountOf pool pid + 1) (processMap pool),
                          created := created pool + 1,
                          activeCount := length (AList.update wid info (watchers pool))\<rparr>"
      have r: "snd (addWatcher np env targetPath0 watcher ty pid pool0) = pool'"
        using Some False lim
        unfolding pool'_def wid_def info_def ids_def ids'_def
        by (simp add: addWatcher_def Let_def flip: pool_def)
      from ok have d: "distinct (map fst (watchers pool))"
        and idx: "\<And>w i. map_of (watchers pool) w = Some i \<Longrightarrow>
                   \<exists>ids. map_of (pathToId pool) (w_path i) = Some ids \<and> w \<in> set ids"
        and dis: "\<And>p ids. map_of (pathToId pool) p = Some ids \<Longrightarrow> distinct ids"
        and lp: "\<And>p. pathWatcherCountOf pool p \<le> maxPerPath pool"
        and cnt: "\<And>pid. card {w. \<exists>i. map_of (watchers pool) w = Some i \<and> processId i = pid}
                    \<le> processCountOf pool pid"
        and lpr: "\<And>pid. processCountOf pool pid \<le> maxPerProcess pool"
        by (auto simp: pool_ok_def)
      have len_ids: "length ids = pathWatcherCountOf pool ?tp"
        by (simp add: ids_def pathWatcherCountOf_def split: option.splits)
      have dis_ids: "distinct ids"
        using dis[of ?tp] by (simp add: ids_def split: option.splits)
      have look: "map_of (pathToId pool') p = (if p = ?tp then Some ids' else map_of (pathToId pool) p)" for p
        by (simp add: pool'_def update_conv')
      have wmap: "map_of (watchers pool') w = (if w = wid then Some info else map_of (watchers pool) w)" for w
        by (simp add: pool'_def update_conv')
      have pc: "processCountOf pool' q = (if q = pid then processCountOf pool pid + 1 else processCountOf pool q)" for q
        by (simp add: pool'_def processCountOf_def update_conv')
      have lims: "maxPerPath pool' = maxPerPath pool" "maxPerProcess pool' = maxPerProcess pool"
        by (simp_all add: pool'_def)
      have 1: "distinct (map fst (watchers pool'))"
        using d by (simp add: pool'_def distinct_update)
      have 2: "\<exists>l. map_of (pathToId pool') (w_path i) = Some l \<and> w \<in> set l"
        if "map_of (watchers pool') w = Some i" for w i
      proof (cases "w = wid")
        case True
        with that have "i = info" by (simp add: wmap)
        then show ?thesis using True by (simp add: look info_def ids'_def)
      next
        case False
        with that have old: "map_of (watchers pool) w = Some i" by (simp add: wmap)
        from idx[OF old] obtain l where l: "map_of (pathToId pool) (w_path i) = Some l" "w \<in> set l"
          by blast
        show ?thesis
        proof (cases "w_path i = ?tp")
          case True
          with l have "ids = l" by (simp add: ids_def)
          with l True show ?thesis by (simp add: look ids'_def)
        next
          case False
          with l show ?thesis by (simp add: look)
        qed
      qed
      have 3: "distinct l" if "map_of (pathToId pool') p = Some l" for p l
        using that dis[of p l] dis_ids by (auto simp: look ids'_def split: if_splits)
      have 4: "pathWatcherCountOf pool' p \<le> maxPerPath pool'" for p
      proof (cases "p = ?tp")
        case True
        have "length ids' \<le> Suc (length ids)" by (simp add: ids'_def)
        moreover have "length ids < maxPerPath pool" using lim len_ids by simp
        ultimately show ?thesis using True by (simp add: pathWatcherCountOf_def look lims)
      next
        case False
        then show ?thesis using lp[of p] by (simp add: pathWatcherCountOf_def look lims)
      qed
      have 5: "card {w. \<exists>i. map_of (watchers pool') w = Some i \<and> processId i = q}
                 \<le> processCountOf pool' q" for q
      proof -
        let ?old = "{w. \<exists>i. map_of (watchers pool) w = Some i \<and> processId i = q}"
        let ?new = "{w. \<exists>i. map_of (watchers pool') w = Some i \<and> processId i = q}"
        have fin: "finite ?old" by (rule finite_records)
        show ?thesis
        proof (cases "q = pid")
          case True
          have "?new \<subseteq> insert wid ?old" by (auto simp: wmap split: if_splits)
          then have "card ?new \<le> card (insert wid ?old)" using fin by (simp add: card_mono)
          also have "\<dots> \<le> Suc (card ?old)" using fin by (simp add: card_insert_if)
          finally show ?thesis using cnt[of q] True by (simp add: pc)
        next
          case False
          have "?new \<subseteq> ?old" using False by (auto simp: wmap info_def split: if_splits)
          then have "card ?new \<le> card ?old" using fin by (simp add: card_mono)
          then show ?thesis using cnt[of q] False by (simp add: pc)
        qed
      qed
      have 6: "processCountOf pool' q \<le> maxPerProcess pool'" for q
        using lpr[of q] lim by (auto simp: pc lims)
      show ?thesis unfolding r pool_ok_def using 1 2 3 4 5 6 by blast
    qed
  qed
qed

lemma records_by_filter:
  assumes "distinct (map fst al)"
  shows "length (filter (\<lambda>(w, i). P i) al) = card {w. \<exists>i. map_of al w = Some i \<and> P i}"
  using assms
proof (induction al)
  case Nil
  then show ?case by simp
next
  case (Cons a al)
  obtain w i where a: "a = (w, i)" by (cases a)
  from Cons.prems a have nw: "w \<notin> fst ` set al" and d: "distinct (map fst al)" by auto
  let ?S = "{w'. \<exists>i'. map_of al w' = Some i' \<and> P i'}"
  have fin: "finite ?S" by (rule finite_records)
  have notin: "w \<notin> ?S" using nw by (auto simp: map_of_eq_None_iff[symmetric] simp del: map_of_eq_None_iff)
  have eq: "{w'. \<exists>i'. map_of (a # al) w' = Some i' \<and> P i'} = (if P i then insert w ?S else ?S)"
    using nw by (auto simp: a map_of_eq_None_iff[symmetric] simp del: map_of_eq_None_iff)
  show ?case unfolding eq using Cons.IH[OF d] fin notin by (simp add: a)
qed

lemma pool_ok_limits:
  assumes ok: "pool_ok pool"
  shows "length (filter (\<lambda>(w, i). w_path i = p) (watchers pool)) \<le> maxPerPath pool"
    and "length (filter (\<lambda>(w, i). processId i = pid) (watchers pool)) \<le> maxPerProcess pool"
proof -
  from ok have d: "distinct (map fst (watchers pool))"
    and idx: "\<And>w i. map_of (watchers pool) w = Some i \<Longrightarrow>
               \<exists>ids. map_of (pathToId pool) (w_path i) = Some ids \<and> w \<in> set ids"
    and lp: "pathWatcherCountOf pool p \<le> maxPerPath pool"
    and cnt: "card {w. \<exists>i. map_of (watchers pool) w = Some i \<and> processId i = pid}
                \<le> processCountOf pool pid"
    and lpr: "processCountOf pool pid \<le> maxPerProcess pool"
    by (auto simp: pool_ok_def)
  let ?S = "{w. \<exists>i. map_of (watchers pool) w = Some i \<and> w_path i = p}"
  have "card ?S \<le> pathWatcherCountOf pool p"
  proof (cases "map_of (pathToId pool) p")
    case None
    have "?S = {}"
    proof (rule ccontr)
      assume "?S \<noteq> {}"
      then obtain w i where wi: "map_of (watchers pool) w = Some i" "w_path i = p" by blast
      from idx[OF wi(1)] wi(2) None show False by simp
    qed
    then show ?thesis by (metis card.empty le0)
  next
    case (Some ids)
    have "?S \<subseteq> set ids"
    proof
      fix w assume "w \<in> ?S"
      then obtain i where wi: "map_of (watchers pool) w = Some i" "w_path i = p" by blast
      from idx[OF wi(1)] wi(2) Some show "w \<in> set ids" by simp
    qed
    then have "card ?S \<le> card (set ids)" by (simp add: card_mono)
    also have "\<dots> \<le> length ids" by (rule card_length)
    finally show ?thesis using Some by (simp add: pathWatcherCountOf_def)
  qed
  with lp show "length (filter (\<lambda>(w, i). w_path i = p) (watchers pool)) \<le> maxPerPath pool"
    by (simp add: records_by_filter[OF d])
  from cnt lpr show "length (filter (\<lambda>(w, i). processId i = pid) (watchers pool)) \<le> maxPerProcess pool"
    by (simp add: records_by_filter[OF d])
qed

lemma removeWatcher_limits:
  "maxPerPath (snd (removeWatcher w pool)) = maxPerPath pool \<and>
   maxPerProcess (snd (removeWatcher w pool)) = maxPerProcess pool \<and>
   maxWatchers (snd (removeWatcher w pool)) = maxWatchers pool"
  by (simp add: removeWatcher_def Let_def split: option.splits)

lemma removeOldestWatcher_limits:
  "maxPerPath (snd (removeOldestWatcher now pool)) = maxPerPath pool \<and>
   maxPerProcess (snd (removeOldestWatcher now pool)) = maxPerProcess pool \<and>
   maxWatchers (snd (removeOldestWatcher now pool)) = maxWatchers pool"
  by (simp add: removeOldestWatcher_def removeWatcher_limits split: option.splits)

lemma removeEach_limits:
  "maxPerPath (snd (removeEach ws pool)) = maxPerPath pool \<and>
   maxPerProcess (snd (removeEach ws pool)) = maxPerProcess pool \<and>
   maxWatchers (snd (removeEach ws pool)) = maxWatchers pool"
  by (induction ws arbitrary: pool) (simp_all add: Let_def case_prod_beta removeWatcher_limits)

lemma run_call_limits:
  "maxPerPath (run_call np pool c) = maxPerPath pool \<and>
   maxPerProcess (run_call np pool c) = maxPerProcess pool \<and>
   maxWatchers (run_call np pool c) = maxWatchers pool"
proof (cases c)
  case (Register env targetPath watcher type pid)
  then show ?thesis
    by (simp add: addWatcher_def Let_def removeOldestWatcher_limits split: option.splits)
next
  case (Unregister w)
  then show ?thesis by (simp add: removeWatcher_limits)
next
  case (Sweep now)
  then show ?thesis by (simp add: cleanupIdleWatchers_def removeEach_limits)
next
  case (EvictOldest now)
  then show ?thesis by (simp add: removeOldestWatcher_limits)
next
  case (Touch now w)
  then show ?thesis by (simp add: useWatcher_def split: option.splits)
qed

lemma pool_ok_run_call: "pool_ok pool \<Longrightarrow> pool_ok (run_call np pool c)"
  by (cases c)
     (simp_all add: pool_ok_addWatcher pool_ok_removeWatcher pool_ok_cleanupIdleWatchers
        pool_ok_removeOldestWatcher pool_ok_useWatcher)

lemma run_calls_invariant:
  "pool_ok pool \<Longrightarrow>
     pool_ok (run_calls np calls pool) \<and>
     maxPerPath (run_calls np calls pool) = maxPerPath pool \<and>
     maxPerProcess (run_calls np calls pool) = maxPerProcess pool \<and>
     maxWatchers (run_calls np calls pool) = maxWatchers pool"
  unfolding run_calls_def
proof (induction calls arbitrary: pool)
  case Nil
  then show ?case by simp
next
  case (Cons c calls)
  from Cons.IH[OF pool_ok_run_call[OF Cons.prems, of np c]] run_call_limits[of np pool c]
  show ?case by simp
qed

text \<open>
  After every sequence of calls on a pool that starts empty, the records of one path are
  at most \<open>maxPerPath\<close> and the records of one process are at most \<open>maxPerProcess\<close>.
\<close>

lemma limits_per_path_and_process_hold:
  "length (filter (\<lambda>(w, i). w_path i = p)
             (watchers (run_calls np calls (initial_pool mw mpp mpr idle)))) \<le> mpp \<and>
   length (filter (\<lambda>(w, i). processId i = pid)
             (watchers (run_calls np calls (initial_pool mw mpp mpr idle)))) \<le> mpr"
proof -
  let ?pool = "run_calls np calls (initial_pool mw mpp mpr idle)"
  from run_calls_invariant[OF pool_ok_initial[of mw mpp mpr idle], of np calls]
  have ok: "pool_ok ?pool" and l: "maxPerPath ?pool = mpp" "maxPerProcess ?pool = mpr"
    by (simp_all add: initial_pool_def)
  from pool_ok_limits(1)[OF ok, of p] pool_ok_limits(2)[OF ok, of pid] l show ?thesis by simp
qed

section \<open>Properties of the caches\<close>

subsection \<open>What the helpers leave alone\<close>

lemma map_of_delete_same: "map_of (AList.delete k al) k = None"
  by (simp add: delete_conv')

lemma map_of_update_same: "map_of (AList.update k v al) k = Some v"
  by (simp add: update_conv')

lemma stopMonitoringFile_keeps:
  "fc_items (stopMonitoringFile p srv) = fc_items srv"
  "fc_enabled (stopMonitoringFile p srv) = fc_enabled srv"
  "fc_maxAge (stopMonitoringFile p srv) = fc_maxAge srv"
  "fc_maxSize (stopMonitoringFile p srv) = fc_maxSize srv"
  "fc_size (stopMonitoringFile p srv) = fc_size srv"
  "fc_evictions (stopMonitoringFile p srv) = fc_evictions srv"
  "fc_monitoring_enabled (stopMonitoringFile p srv) = fc_monitoring_enabled srv"
  "dc_items (stopMonitoringFile p srv) = dc_items srv"
  "dc_enabled (stopMonitoringFile p srv) = dc_enabled srv"
  by (simp_all add: stopMonitoringFile_def split: option.splits)

lemma stopMonitoringDirectory_keeps:
  "dc_items (stopMonitoringDirectory p srv) = dc_items srv"
  "dc_enabled (stopMonitoringDirectory p srv) = dc_enabled srv"
  "dc_maxAge (stopMonitoringDirectory p srv) = dc_maxAge srv"
  "dc_maxSize (stopMonitoringDirectory p srv) = dc_maxSize srv"
  "dc_evictions (stopMonitoringDirectory p srv) = dc_evictions srv"
  "fc_items (stopMonitoringDirectory p srv) = fc_items srv"
  "fc_enabled (stopMonitoringDirectory p srv) = fc_enabled srv"
  by (simp_all add: stopMonitoringDirectory_def split: option.splits)

lemma invalidateDirCache_keeps:
  "fc_items (invalidateDirCache p srv) = fc_items srv"
  "fc_enabled (invalidateDirCache p srv) = fc_enabled srv"
  "fc_maxAge (invalidateDirCache p srv) = fc_maxAge srv"
  "fc_misses (invalidateDirCache p srv) = fc_misses srv"
  "streamThresholds_read (invalidateDirCache p srv) = streamThresholds_read srv"
  "dc_enabled (invalidateDirCache p srv) = dc_enabled srv"
  "MONITOR_POOL (invalidateDirCache p srv) = MONITOR_POOL srv"
  "dm_watchers (invalidateDirCache p srv) = dm_watchers srv"
  "dm_monitoredPaths (invalidateDirCache p srv) = dm_monitoredPaths srv"
  by (simp_all add: invalidateDirCache_def Let_def)

lemma monitorFileForCache_keeps:
  "fc_items (monitorFileForCache env p srv) = fc_items srv"
  "dc_items (monitorFileForCache env p srv) = dc_items srv"
  by (simp_all add: monitorFileForCache_def Let_def split: prod.splits option.splits)

lemma evictUntilFits_keeps_dc:
  "dc_items (evictUntilFits r xs srv) = dc_items srv"
  by (induction r xs srv rule: evictUntilFits.induct)
     (simp_all add: Let_def stopMonitoringFile_keeps)

lemma addToCache_keeps_dc:
  "dc_items (addToCache now env p c srv) = dc_items srv"
  by (simp add: addToCache_def ensureCacheSpace_def Let_def evictUntilFits_keeps_dc
        monitorFileForCache_keeps split: option.splits)

lemmas cache_keeps =
  map_of_delete_same map_of_update_same stopMonitoringFile_keeps stopMonitoringDirectory_keeps
  invalidateDirCache_keeps monitorFileForCache_keeps evictUntilFits_keeps_dc addToCache_keeps_dc

subsection \<open>Facts about the example states\<close>

lemma cached_b_items:
  "fc_items cached_b =
     [(''/a/b.txt'', \<lparr>content = Text ''x'', timestamp = 1, lastAccess = 1\<rparr>)]"
  "fc_enabled cached_b" "fc_maxAge cached_b = 60000"
  by (simp_all add: cached_b_def cache_eval pool_eval)

lemma listed_dir_items:
  "dc_items listed_dir = [(''/dir'', \<lparr>d_content = [''f''], d_timestamp = 1, lastAccessed = 1\<rparr>)]"
  "dc_enabled listed_dir" "dc_maxAge listed_dir = 30000"
  by (simp_all add: listed_dir_def cache_eval pool_eval)

lemma listed_a_facts:
  "fc_enabled listed_a" "dc_enabled listed_a"
  "fc_items listed_a =
     [(''/a/b.txt'', \<lparr>content = Text ''x'', timestamp = 1, lastAccess = 1\<rparr>)]"
  "dc_items listed_a = [(''/a'', \<lparr>d_content = [''b.txt''], d_timestamp = 1, lastAccessed = 1\<rparr>)]"
  "streamThresholds_write listed_a = 0" "streamThresholds_append listed_a = 0"
  by (simp_all add: listed_a_def cached_b_def cache_eval pool_eval)


subsection \<open>Reading: expiry\<close>

lemma getFromCache_hit:
  assumes "fst (getFromCache now p srv) = Some c"
  shows "\<exists>item. map_of (fc_items srv) p = Some item \<and> content item = c \<and>
           now - timestamp item \<le> fc_maxAge srv"
  using assms by (auto simp: getFromCache_def Let_def split: if_splits option.splits)

lemma getFromCache_expired:
  assumes "fc_enabled srv" and "map_of (fc_items srv) p = Some item"
    and "now - timestamp item > fc_maxAge srv"
  shows "fst (getFromCache now p srv) = None"
    and "map_of (fc_items (snd (getFromCache now p srv))) p = None"
  using assms by (simp_all add: getFromCache_def Let_def cache_keeps)

lemma getFromDirCache_hit:
  assumes "fst (getFromDirCache now p srv) = Some c"
  shows "\<exists>item. map_of (dc_items srv) p = Some item \<and> d_content item = c \<and>
           now - d_timestamp item \<le> dc_maxAge srv"
  using assms by (auto simp: getFromDirCache_def split: if_splits option.splits)

lemma getFromDirCache_expired:
  assumes "dc_enabled srv" and "map_of (dc_items srv) p = Some item"
    and "now - d_timestamp item > dc_maxAge srv"
  shows "fst (getFromDirCache now p srv) = None"
    and "map_of (dc_items (snd (getFromDirCache now p srv))) p = None"
  using assms by (simp_all add: getFromDirCache_def cache_keeps)

text \<open>
  C7. In both caches, a value that \<open>get\<close> returns comes from an entry whose age
  \<open>now - timestamp\<close> does not exceed \<open>maxAge\<close>; and in a cache that is switched on, an
  entry that is present and older than \<open>maxAge\<close> makes \<open>get\<close> answer with a miss and is no
  longer in the cache when \<open>get\<close> returns. (A cache that is switched off answers every
  \<open>get\<close> with a miss.)
\<close>

theorem get_never_returns_expired_entry:
  "(fst (getFromCache now p srv) = Some c \<longrightarrow>
      (\<exists>item. map_of (fc_items srv) p = Some item \<and> content item = c \<and>
              now - timestamp item \<le> fc_maxAge srv)) \<and>
   (fc_enabled srv \<and> map_of (fc_items srv) p = Some item \<and>
    now - timestamp item > fc_maxAge srv \<longrightarrow>
      fst (getFromCache now p srv) = None \<and>
      map_of (fc_items (snd (getFromCache now p srv))) p = None) \<and>
   (fst (getFromDirCache now p srv) = Some l \<longrightarrow>
      (\<exists>ditem. map_of (dc_items srv) p = Some ditem \<and> d_content ditem = l \<and>
               now - d_timestamp ditem \<le> dc_maxAge srv)) \<and>
   (dc_enabled srv \<and> map_of (dc_items srv) p = Some ditem \<and>
    now - d_timestamp ditem > dc_maxAge srv \<longrightarrow>
      fst (getFromDirCache now p srv) = None \<and>
      map_of (dc_items (snd (getFromDirCache now p srv))) p = None)"
  using getFromCache_hit[of now p srv c] getFromCache_expired[of srv p item now]
    getFromDirCache_hit[of now p srv l] getFromDirCache_expired[of srv p ditem now]
  by blast

theorem get_never_returns_expired_entry_witness:
  "fst (getFromCache 60001 ''/a/b.txt'' cached_b) = Some (Text ''x'') \<and>
   fst (getFromCache 60002 ''/a/b.txt'' cached_b) = None \<and>
   map_of (fc_items (snd (getFromCache 60002 ''/a/b.txt'' cached_b))) ''/a/b.txt'' = None \<and>
   fst (getFromDirCache 30001 ''/dir'' listed_dir) = Some [''f''] \<and>
   fst (getFromDirCache 30002 ''/dir'' listed_dir) = None \<and>
   map_of (dc_items (snd (getFromDirCache 30002 ''/dir'' listed_dir))) ''/dir'' = None"
  using get_never_returns_expired_entry
          [of 60002 "''/a/b.txt''" cached_b "Text ''x''"
              "\<lparr>content = Text ''x'', timestamp = 1, lastAccess = 1\<rparr>" "[''f'']"
              "\<lparr>d_content = [''f''], d_timestamp = 1, lastAccessed = 1\<rparr>"]
        get_never_returns_expired_entry
          [of 30002 "''/dir''" listed_dir "Text ''x''"
              "\<lparr>content = Text ''x'', timestamp = 1, lastAccess = 1\<rparr>" "[''f'']"
              "\<lparr>d_content = [''f''], d_timestamp = 1, lastAccessed = 1\<rparr>"]
  by (simp add: cached_b_items listed_dir_items getFromCache_def getFromDirCache_def)

subsection \<open>Change events for a cached file\<close>

lemma getFromCache_absent:
  assumes "map_of (fc_items srv) p = None"
  shows "fst (getFromCache now p srv) = None"
    and "fc_enabled srv \<Longrightarrow> fc_misses (snd (getFromCache now p srv)) = fc_misses srv + 1"
  using assms by (simp_all add: getFromCache_def)

lemma readFile_absent:
  assumes "map_of (fc_items srv) p = None" and "files p = Some (FileNode data)"
  shows "fst (readFile True encoding getNow addNow env files p srv) =
           (case encoding of
              TextEncoding \<Rightarrow> Succeeded (Text data)
            | NoEncoding \<Rightarrow>
                Succeeded (if length data >
                                threshold_or (streamThresholds_read srv) LARGE_FILE_THRESHOLD_read
                           then Text data else Buffer data)
            | UnknownEncoding \<Rightarrow> Failed)"
  using assms
  by (simp add: readFile_def getFromCache_def Let_def readFileSync_def readLargeFile_def
        split: read_encoding.splits)

text \<open>
  C5. After the callback of a monitored file has received a \<^verbatim>\<open>change\<close> or \<^verbatim>\<open>unlink\<close>
  event, the file cache holds no entry for the path of the file; the next
  \<^verbatim>\<open>getFromCache\<close> for it answers with a miss (counted as one when the cache is switched
  on), and the next \<^verbatim>\<open>readFile\<close> returns what the file system holds for the path. This
  is so for every \<^verbatim>\<open>encoding\<close> of the read: with the name of an encoding (or none given,
  which means \<^verbatim>\<open>utf8\<close>) the result is the content of the file as a string; without an
  encoding it is the content as a \<^verbatim>\<open>Buffer\<close>, or as a string when the file is above the
  read threshold and streamed; and with an encoding the runtime does not know the read of
  the file system fails and the failure is returned.
\<close>

theorem change_event_removes_file_entry:
  assumes "event = Change \<or> event = Unlink"
  shows "map_of (fc_items (fileChangeCallback p event changedPath srv)) p = None \<and>
         fst (getFromCache now p (fileChangeCallback p event changedPath srv)) = None \<and>
         (fc_enabled srv \<longrightarrow>
            fc_misses (snd (getFromCache now p (fileChangeCallback p event changedPath srv))) =
              fc_misses srv + 1) \<and>
         (files p = Some (FileNode data) \<longrightarrow>
            fst (readFile True encoding getNow addNow env files p
                   (fileChangeCallback p event changedPath srv)) =
              (case encoding of
                 TextEncoding \<Rightarrow> Succeeded (Text data)
               | NoEncoding \<Rightarrow>
                   Succeeded (if length data >
                                   threshold_or (streamThresholds_read srv)
                                     LARGE_FILE_THRESHOLD_read
                              then Text data else Buffer data)
               | UnknownEncoding \<Rightarrow> Failed))"
proof -
  let ?after = "fileChangeCallback p event changedPath srv"
  have gone: "map_of (fc_items ?after) p = None"
    using assms by (auto simp: fileChangeCallback_def cache_keeps)
  have same: "fc_enabled ?after = fc_enabled srv" "fc_misses ?after = fc_misses srv"
    "streamThresholds_read ?after = streamThresholds_read srv"
    by (simp_all add: fileChangeCallback_def cache_keeps)
  show ?thesis
    using gone getFromCache_absent[OF gone, of now]
      readFile_absent[OF gone, of files data encoding getNow addNow env] same
    by simp
qed

theorem change_event_removes_file_entry_witness:
  "map_of (fc_items cached_b) ''/a/b.txt'' =
     Some \<lparr>content = Text ''x'', timestamp = 1, lastAccess = 1\<rparr> \<and>
   map_of (fc_items changed_b) ''/a/b.txt'' = None \<and>
   fst (getFromCache 2 ''/a/b.txt'' changed_b) = None \<and>
   fc_misses (snd (getFromCache 2 ''/a/b.txt'' changed_b)) = fc_misses cached_b + 1 \<and>
   fst (readFile True TextEncoding 2 2 (watch_at 2 2) files_x ''/a/b.txt'' changed_b) =
     Succeeded (Text ''x'')"
proof -
  have h: "Change = Change \<or> Change = Unlink" by simp
  have f: "files_x ''/a/b.txt'' = Some (FileNode ''x'')" by (simp add: files_x_def)
  show ?thesis
    using change_event_removes_file_entry
            [OF h, of "''/a/b.txt''" "''/a/b.txt''" cached_b 2 files_x "''x''" TextEncoding 2 2
               "watch_at 2 2"] f
    by (simp add: changed_b_def cached_b_items)
qed

text \<open>
  C4 (no watcher outlives the last cache entry of its path). The code breaks this on a
  change event: the callback removes the entry of \<^verbatim>\<open>/a/b.txt\<close> from the file cache and
  neither closes the watcher nor takes the path out of the monitored paths, so the record
  stays in the pool. Expiry in \<^verbatim>\<open>getFromCache\<close>, the sibling path, does stop the watcher
  (\<open>expiry_removes_watcher\<close> below).
\<close>

theorem change_event_leaves_watcher_registered:
  "map fst (fc_items cached_b) = [''/a/b.txt''] \<and>
   map (w_path \<circ> snd) (watchers (MONITOR_POOL cached_b)) = [''/a/b.txt''] \<and>
   map_of (fc_items changed_b) ''/a/b.txt'' = None \<and>
   map (w_path \<circ> snd) (watchers (MONITOR_POOL changed_b)) = [''/a/b.txt''] \<and>
   cm_monitoredPaths changed_b = [''/a/b.txt''] \<and>
   closed (MONITOR_POOL changed_b) = 0"
  by (simp add: changed_b_def cached_b_def cache_eval pool_eval)

lemma expiry_removes_watcher:
  "map_of (fc_items expired_b) ''/a/b.txt'' = None \<and>
   watchers (MONITOR_POOL expired_b) = [] \<and> cm_monitoredPaths expired_b = []"
  by (simp add: expired_b_def cached_b_def cache_eval pool_eval)

subsection \<open>Empty content\<close>

lemma addToCache_empty: "addToCache now env p (Text []) srv = srv"
  by (simp add: addToCache_def)

lemma readFile_never_serves_empty:
  assumes "files p = Some (FileNode data)"
    and "map_of (fc_items srv) p = Some item" and "content item = Text []"
  shows "fst (readFile True encoding getNow addNow env files p srv) =
           (case encoding of
              TextEncoding \<Rightarrow> Succeeded (Text data)
            | NoEncoding \<Rightarrow>
                Succeeded (if length data >
                                threshold_or (streamThresholds_read srv) LARGE_FILE_THRESHOLD_read
                           then Text data else Buffer data)
            | UnknownEncoding \<Rightarrow> Failed)"
  using assms
  by (simp add: readFile_def getFromCache_def Let_def readFileSync_def readLargeFile_def
        cache_keeps stopMonitoringFile_def split: prod.splits read_encoding.splits option.splits)

lemma readFile_empty_uncached:
  assumes "files p = Some (FileNode [])" and "map_of (fc_items srv) p = None"
  shows "fst (readFile True TextEncoding getNow addNow env files p srv) = Succeeded (Text [])"
    and "map_of (fc_items (snd (readFile True TextEncoding getNow addNow env files p srv))) p =
           None"
  using assms
  by (simp_all add: readFile_def getFromCache_def Let_def addToCache_empty threshold_or_def
        LARGE_FILE_THRESHOLD_read_def readFileSync_def)

text \<open>
  C10, as amended. \<^verbatim>\<open>addToCache\<close> with the empty string as content leaves the state as
  it is; \<^verbatim>\<open>readFile\<close> does not serve a cached content that is the empty string but reads
  the file system, whatever the encoding of the read (the result is the content of the
  file as a string, as a \<^verbatim>\<open>Buffer\<close> when a file that is not streamed is read without an
  encoding, and a failure when the runtime does not know the encoding); and when a file is
  empty and is read as text (with the name of an encoding, or with none given) while the
  cache holds no entry for its path, \<^verbatim>\<open>readFile\<close> returns the empty content of the file
  and the cache still holds no entry for the path afterwards.
\<close>

theorem empty_content_never_cached:
  "addToCache now env p (Text []) srv = srv \<and>
   (files p = Some (FileNode data) \<and> map_of (fc_items srv) p = Some item \<and>
    content item = Text [] \<longrightarrow>
      fst (readFile True encoding getNow addNow env files p srv) =
        (case encoding of
           TextEncoding \<Rightarrow> Succeeded (Text data)
         | NoEncoding \<Rightarrow>
             Succeeded (if length data >
                             threshold_or (streamThresholds_read srv) LARGE_FILE_THRESHOLD_read
                        then Text data else Buffer data)
         | UnknownEncoding \<Rightarrow> Failed)) \<and>
   (files p = Some (FileNode []) \<and> map_of (fc_items srv) p = None \<longrightarrow>
      fst (readFile True TextEncoding getNow addNow env files p srv) = Succeeded (Text []) \<and>
      map_of (fc_items (snd (readFile True TextEncoding getNow addNow env files p srv))) p =
        None)"
  using addToCache_empty[of now env p srv]
    readFile_never_serves_empty[of files p data srv item encoding getNow addNow env]
    readFile_empty_uncached[of files p srv getNow addNow env]
  by blast

theorem empty_content_never_cached_witness:
  "addToCache 5 (watch_at 5 5) ''/a/b.txt'' (Text []) cached_b = cached_b \<and>
   fst (readFile True TextEncoding 2 2 (watch_at 2 2) files_x ''/a/b.txt'' held_empty) =
     Succeeded (Text ''x'') \<and>
   fst (readFile True TextEncoding 1 1 (watch_at 1 1) files_empty ''/a/b.txt''
          (server_on 100 100)) = Succeeded (Text []) \<and>
   map_of (fc_items (snd (readFile True TextEncoding 1 1 (watch_at 1 1) files_empty ''/a/b.txt''
                            (server_on 100 100)))) ''/a/b.txt'' = None"
proof -
  have f: "files_empty ''/a/b.txt'' = Some (FileNode [])" by (simp add: files_empty_def)
  have n: "map_of (fc_items (server_on 100 100)) ''/a/b.txt'' = None"
    by (simp add: server_on_def)
  have x: "files_x ''/a/b.txt'' = Some (FileNode ''x'')" by (simp add: files_x_def)
  have e: "map_of (fc_items held_empty) ''/a/b.txt'' =
             Some \<lparr>content = Text [], timestamp = 1, lastAccess = 1\<rparr>"
    by (simp add: held_empty_def)
  show ?thesis
    using empty_content_never_cached
            [of 5 "watch_at 5 5" "''/a/b.txt''" cached_b files_x "''x''"
                "\<lparr>content = Text [], timestamp = 1, lastAccess = 1\<rparr>" TextEncoding 2 2]
          empty_content_never_cached
            [of 2 "watch_at 2 2" "''/a/b.txt''" held_empty files_x "''x''"
                "\<lparr>content = Text [], timestamp = 1, lastAccess = 1\<rparr>" TextEncoding 2 2]
          empty_content_never_cached
            [of 1 "watch_at 1 1" "''/a/b.txt''" "server_on 100 100" files_empty "[]"
                "\<lparr>content = Text [], timestamp = 1, lastAccess = 1\<rparr>" TextEncoding 1 1]
          f n x e
    by simp
qed

text \<open>
  C10 as the claim states it fails, since the cache keeps what it has read for
  \<open>maxAge\<close>: \<^verbatim>\<open>/a/b.txt\<close> is read while it holds \<^verbatim>\<open>x\<close>; then another program empties
  the file (the server carries out no operation on it), and a read one millisecond later,
  before the watcher has reported the change, returns the cached \<^verbatim>\<open>x\<close> instead of reading
  the empty file.
\<close>

theorem readFile_serves_stale_content_of_emptied_file:
  "files_empty ''/a/b.txt'' = Some (FileNode []) \<and>
   fst (readFile True TextEncoding 2 2 (watch_at 2 2) files_empty ''/a/b.txt'' read_b) =
     Succeeded (Text ''x'')"
  by (simp add: read_b_def files_empty_def files_x_def readFile_def readFileSync_def cache_eval
        pool_eval)

text \<open>
  Read without an encoding, the empty file gives an empty \<^verbatim>\<open>Buffer\<close>. It is truthy, so
  \<^verbatim>\<open>addToCache\<close> stores it and the next \<^verbatim>\<open>readFile\<close> serves it.
\<close>

lemma readFile_without_encoding_stores_empty_buffer:
  "map_option content (map_of (fc_items read_raw) ''/a/b.txt'') = Some (Buffer []) \<and>
   fst (readFile True TextEncoding 2 2 (watch_at 2 2) files_empty ''/a/b.txt'' read_raw) =
     Succeeded (Buffer [])"
  by (simp add: read_raw_def files_empty_def readFile_def readFileSync_def cache_eval pool_eval)

subsection \<open>Eviction\<close>

lemma evictUntilFits_keeps_max:
  "fc_maxSize (evictUntilFits r xs srv) = fc_maxSize srv"
  by (induction r xs srv rule: evictUntilFits.induct)
     (simp_all add: Let_def stopMonitoringFile_keeps)

lemma evictUntilFits_prefix:
  "\<exists>k. k \<le> length xs \<and> (xs \<noteq> [] \<longrightarrow> 0 < k) \<and>
       fc_items (evictUntilFits r xs srv) =
         foldl (\<lambda>al key. AList.delete key al) (fc_items srv) (map fst (take k xs)) \<and>
       fc_evictions (evictUntilFits r xs srv) = fc_evictions srv + k \<and>
       fc_size (evictUntilFits r xs srv) = fc_size srv - evicted_size (take k xs) \<and>
       (k < length xs \<longrightarrow> fc_size (evictUntilFits r xs srv) + int r \<le> fc_maxSize srv) \<and>
       (\<forall>j. 0 < j \<and> j < k \<longrightarrow> \<not> fc_size srv - evicted_size (take j xs) + int r \<le> fc_maxSize srv)"
proof (induction xs arbitrary: srv)
  case Nil
  show ?case by (rule exI[of _ 0]) (simp add: evicted_size_def)
next
  case (Cons a xs)
  obtain key item where a: "a = (key, item)" by (cases a)
  let ?s1 = "if fc_monitoring_enabled srv then stopMonitoringFile key srv else srv"
  let ?s2 = "?s1\<lparr>fc_items := AList.delete key (fc_items ?s1),
                  fc_size := fc_size ?s1 - int (contentLength (content item)),
                  fc_evictions := fc_evictions ?s1 + 1\<rparr>"
  have s2: "fc_items ?s2 = AList.delete key (fc_items srv)"
    "fc_size ?s2 = fc_size srv - int (contentLength (content item))"
    "fc_evictions ?s2 = fc_evictions srv + 1" "fc_maxSize ?s2 = fc_maxSize srv"
    by (simp_all add: stopMonitoringFile_keeps)
  show ?case
  proof (cases "fc_size ?s2 + int r \<le> fc_maxSize ?s2")
    case True
    then have e: "evictUntilFits r (a # xs) srv = ?s2" by (simp add: a Let_def)
    show ?thesis
      apply (rule exI[of _ 1])
      using True s2 unfolding e by (auto simp: a evicted_size_def)
  next
    case False
    then have e: "evictUntilFits r (a # xs) srv = evictUntilFits r xs ?s2"
      by (simp add: a Let_def)
    from Cons.IH[of ?s2] obtain k where k: "k \<le> length xs"
      "fc_items (evictUntilFits r xs ?s2) =
         foldl (\<lambda>al key. AList.delete key al) (fc_items ?s2) (map fst (take k xs))"
      "fc_evictions (evictUntilFits r xs ?s2) = fc_evictions ?s2 + k"
      "fc_size (evictUntilFits r xs ?s2) = fc_size ?s2 - evicted_size (take k xs)"
      "k < length xs \<longrightarrow> fc_size (evictUntilFits r xs ?s2) + int r \<le> fc_maxSize ?s2"
      "\<forall>j. 0 < j \<and> j < k \<longrightarrow> \<not> fc_size ?s2 - evicted_size (take j xs) + int r \<le> fc_maxSize ?s2"
      by blast
    have min: "\<not> fc_size srv - evicted_size (take j (a # xs)) + int r \<le> fc_maxSize srv"
      if "0 < j" "j < Suc k" for j
    proof (cases j)
      case 0
      with that show ?thesis by simp
    next
      case (Suc j')
      show ?thesis
      proof (cases "j' = 0")
        case True
        with Suc False s2 show ?thesis by (simp add: a evicted_size_def)
      next
        case False
        with Suc that k(6) have "\<not> fc_size ?s2 - evicted_size (take j' xs) + int r \<le> fc_maxSize ?s2"
          by simp
        with Suc s2 show ?thesis by (simp add: a evicted_size_def)
      qed
    qed
    show ?thesis
      apply (rule exI[of _ "Suc k"])
      using k(1-5) s2 min unfolding e by (auto simp: a evicted_size_def)
  qed
qed

lemma ensureCacheSpace_evicts_in_access_order:
  assumes full: "\<not> fc_size srv + int r \<le> fc_maxSize srv"
  defines "xs \<equiv> sort_key (\<lambda>(key, item). lastAccess item) (fc_items srv)"
  shows "sorted (map (\<lambda>(key, item). lastAccess item) xs) \<and>
         (\<exists>k. k \<le> length xs \<and> (xs \<noteq> [] \<longrightarrow> 0 < k) \<and>
            fc_items (ensureCacheSpace r srv) =
              foldl (\<lambda>al key. AList.delete key al) (fc_items srv) (map fst (take k xs)) \<and>
            fc_evictions (ensureCacheSpace r srv) = fc_evictions srv + k \<and>
            (k < length xs \<longrightarrow> fc_size (ensureCacheSpace r srv) + int r \<le> fc_maxSize srv) \<and>
            (\<forall>j. 0 < j \<and> j < k \<longrightarrow>
                 \<not> fc_size srv - evicted_size (take j xs) + int r \<le> fc_maxSize srv))"
proof -
  have e: "ensureCacheSpace r srv = evictUntilFits r xs srv"
    using full by (simp add: ensureCacheSpace_def xs_def)
  have s: "sorted (map (\<lambda>(key, item). lastAccess item) xs)"
    unfolding xs_def by (rule sorted_sort_key)
  from evictUntilFits_prefix[of xs r srv] s show ?thesis unfolding e by blast
qed


lemma findOldestDir_spec:
  "findOldestDir xs t op = (t', op') \<Longrightarrow>
     t' \<le> t \<and> (\<forall>(p, item) \<in> set xs. t' \<le> lastAccessed item) \<and>
     ((t' = t \<and> op' = op) \<or>
      (t' < t \<and> (\<exists>p item. op' = Some p \<and> (p, item) \<in> set xs \<and> lastAccessed item = t')))"
proof (induction xs arbitrary: t op)
  case Nil
  then show ?case by simp
next
  case (Cons a xs)
  obtain p item where a: "a = (p, item)" by (cases a)
  show ?case
  proof (cases "lastAccessed item < t")
    case True
    with Cons.prems a have "findOldestDir xs (lastAccessed item) (Some p) = (t', op')" by simp
    from Cons.IH[OF this] True a show ?thesis by fastforce
  next
    case False
    with Cons.prems a have "findOldestDir xs t op = (t', op')" by simp
    from Cons.IH[OF this] False a show ?thesis by fastforce
  qed
qed

lemma evictFromDirCache_evicts_least_recently_accessed:
  assumes some: "(p0, item0) \<in> set (dc_items srv)" "lastAccessed item0 < now"
    and named: "\<forall>(p, item) \<in> set (dc_items srv). p \<noteq> []"
  shows "\<exists>victim item. (victim, item) \<in> set (dc_items srv) \<and>
           (\<forall>(p, other) \<in> set (dc_items srv). lastAccessed item \<le> lastAccessed other) \<and>
           dc_items (evictFromDirCache now srv) = AList.delete victim (dc_items srv) \<and>
           dc_evictions (evictFromDirCache now srv) = dc_evictions srv + 1"
proof -
  obtain t' op' where f: "findOldestDir (dc_items srv) now None = (t', op')"
    by (cases "findOldestDir (dc_items srv) now None")
  note s = findOldestDir_spec[OF f]
  from s some have "t' \<le> lastAccessed item0" by fastforce
  with some have "t' < now" by simp
  with s obtain victim item where v: "op' = Some victim" "(victim, item) \<in> set (dc_items srv)"
    "lastAccessed item = t'" by auto
  from v(2) named have ne: "victim \<noteq> []" by blast
  have least: "\<forall>(p, other) \<in> set (dc_items srv). lastAccessed item \<le> lastAccessed other"
    using s v(3) by simp
  have "dc_items (evictFromDirCache now srv) = AList.delete victim (dc_items srv) \<and>
        dc_evictions (evictFromDirCache now srv) = dc_evictions srv + 1"
    using f v(1) ne by (simp add: evictFromDirCache_def stopMonitoringDirectory_keeps)
  with v(2) least show ?thesis by blast
qed

text \<open>
  C8 (eviction makes room, least recently accessed first). The directory cache breaks
  this: its search for the least recently accessed entry starts from the current clock
  reading and accepts only strictly earlier access times, so with \<open>maxSize = 1\<close> a second
  listing added in the millisecond of the first evicts nothing and the cache holds two
  entries. The file cache evicts in ascending order of \<open>lastAccess\<close> until, by its
  counter \<open>fc_size\<close>, the new content fits, and counts every eviction
  (\<open>ensureCacheSpace_evicts_in_access_order\<close> above); the directory cache evicts its least recently accessed entry whenever one was
  accessed before the clock reading
  (\<open>evictFromDirCache_evicts_least_recently_accessed\<close>); and with access times that
  differ, both caches evict \<open>B\<close> and keep \<open>A\<close> (\<open>lru_scenario\<close> below).
\<close>

theorem addToDirCache_same_millisecond_exceeds_maxSize:
  "dc_maxSize dir_same_ms = 1 \<and> map fst (dc_items dir_same_ms) = [''/a'', ''/b''] \<and>
   dc_evictions dir_same_ms = 0"
  by (simp add: dir_same_ms_def cache_eval pool_eval)

lemma lru_scenario:
  "map fst (fc_items file_lru) = [''/A'', ''/C''] \<and> fc_evictions file_lru = 1 \<and>
   map fst (dc_items dir_lru) = [''/A'', ''/C''] \<and> dc_evictions dir_lru = 1"
  by (simp add: file_lru_def dir_lru_def cache_eval pool_eval)

subsection \<open>Change events under a watched directory\<close>

lemma invalidateDirCache_removes:
  "dc_enabled srv \<Longrightarrow> map_of (dc_items (invalidateDirCache q srv)) q = None"
  by (simp add: invalidateDirCache_def Let_def delete_conv')


lemma invalidateDirCache_stays_removed:
  "map_of (dc_items srv) k = None \<Longrightarrow> map_of (dc_items (invalidateDirCache q srv)) k = None"
  by (simp add: invalidateDirCache_def Let_def delete_conv')

lemma dirChangeCallback_invalidates_root:
  "dc_enabled srv \<Longrightarrow> map_of (dc_items (dirChangeCallback cwd d ev cp srv)) d = None"
  by (simp add: dirChangeCallback_def Let_def invalidateDirCache_removes
        invalidateDirCache_stays_removed cache_keeps)

lemma dirChangeCallback_invalidates_nested_parent:
  assumes "dc_enabled srv" and "cp \<noteq> []" and "cp \<noteq> d" and "dirname cp \<noteq> d"
    and "\<not> startsWith (relative cwd d cp) ''..''" and "\<not> isAbsolute (relative cwd d cp)"
  shows "map_of (dc_items (dirChangeCallback cwd d ev cp srv)) (dirname cp) = None"
  using assms
  by (simp add: dirChangeCallback_def Let_def invalidateDirCache_removes cache_keeps)

text \<open>
  C6 (a nested change invalidates the listing of the changed path's parent). The code
  breaks this for a parent whose name begins with two dots: the callback takes the
  changed path to lie outside the watched directory when \<^verbatim>\<open>path.relative\<close> starts with
  \<^verbatim>\<open>..\<close>, which the relative path \<^verbatim>\<open>..cfg/new.txt\<close> does. The listing of \<^verbatim>\<open>/dir\<close> is
  invalidated, the listing of \<^verbatim>\<open>/dir/..cfg\<close>, which has no watcher of its own here, stays
  cached. For every other nested change the listing of the parent is removed
  (\<open>dirChangeCallback_invalidates_nested_parent\<close> above), and the listing of the watched
  directory always is (\<open>dirChangeCallback_invalidates_root\<close>).
\<close>

theorem dirChangeCallback_skips_parent_named_with_dots:
  "map fst (dc_items listed_nested) = [''/dir'', ''/dir/..cfg''] \<and>
   dm_monitoredPaths listed_nested = [''/dir''] \<and>
   dirname ''/dir/..cfg/new.txt'' = ''/dir/..cfg'' \<and>
   relative ''/'' ''/dir'' ''/dir/..cfg/new.txt'' = ''..cfg/new.txt'' \<and>
   map fst (dc_items nested_event) = [''/dir/..cfg'']"
  by (simp add: nested_event_def listed_nested_def dirChangeCallback_def cache_eval pool_eval
        dirname_def relative_def resolve_def isAbsolute_def segments_def startsWith_def)

subsection \<open>Writing operations\<close>



lemma writeFile_creates_missing_directories:
  "files_x ''/n'' = None \<and> files_x ''/n/m'' = None \<and>
   fst wrote_deep = Succeeded () \<and>
   fst (snd wrote_deep) ''/n'' = Some DirNode \<and>
   fst (snd wrote_deep) ''/n/m'' = Some DirNode \<and>
   fst (snd wrote_deep) ''/n/m/c.txt'' = Some (FileNode ''new'')"
proof -
  have d: "dirname ''/n/m/c.txt'' = ''/n/m''" "dirname ''/n/m'' = ''/n''" "dirname ''/n'' = ''/''"
    by (simp_all add: dirname_def)
  have x: "files_x ''/'' = Some DirNode" "files_x ''/n'' = None" "files_x ''/n/m'' = None"
    by (simp_all add: files_x_def)
  have root: "mkdirRecursive ''/'' files_x = Some files_x"
    by (subst mkdirRecursive.simps) (simp add: x)
  have n: "mkdirRecursive ''/n'' files_x = Some (files_x(''/n'' \<mapsto> DirNode))"
    by (subst mkdirRecursive.simps) (simp add: x d root)
  have m: "mkdirRecursive ''/n/m'' files_x =
             Some (files_x(''/n'' \<mapsto> DirNode, ''/n/m'' \<mapsto> DirNode))"
    by (subst mkdirRecursive.simps) (simp add: x d n)
  have e: "ensureDirectory ''/n/m'' files_x =
             Some (files_x(''/n'' \<mapsto> DirNode, ''/n/m'' \<mapsto> DirNode))"
    by (simp add: ensureDirectory_def x m)
  show ?thesis
    by (simp add: wrote_deep_def writeFile_def d e x listed_a_facts threshold_or_def
          LARGE_FILE_THRESHOLD_write_def)
qed






lemma copyFile_needs_directory:
  "ensureDirectory (dirname dst) files = None \<Longrightarrow>
     fst (copyFile allowed io_ok ow src dst (files1, srv)) = Succeeded () \<Longrightarrow> files1 \<noteq> files"
  by (auto simp: copyFile_def split: if_splits)









end
